theory Spec2Isabelle
  imports Main "HOL-Library.Multiset"
begin

section \<open>Strings and runes\<close>

text \<open>
  A Go string is a sequence of bytes; \<^typ>\<open>string\<close> is used for it, one \<^typ>\<open>char\<close>
  per byte. The regexp package steps through its input one rune at a time with
  \<^verbatim>\<open>utf8.DecodeRuneInString\<close>: a well-formed UTF-8 sequence of 1 to 4 bytes is one rune,
  and a byte that starts no well-formed sequence is one rune (U+FFFD) of width 1.
  A rune is represented by the bytes it was decoded from.
\<close>

type_synonym rune = string

definition byte :: "char \<Rightarrow> nat" where
  "byte c = of_char c"

definition between :: "nat \<Rightarrow> nat \<Rightarrow> char \<Rightarrow> bool" where
  "between lo hi c = (lo \<le> byte c \<and> byte c \<le> hi)"

text \<open>
  \<open>rune_extra c cs\<close> is the number of continuation bytes that follow the first byte \<open>c\<close>
  in the rune at the head of \<open>c # cs\<close> (the tables \<^verbatim>\<open>first\<close> and \<^verbatim>\<open>acceptRanges\<close> of
  unicode/utf8).
\<close>

definition rune_extra :: "char \<Rightarrow> string \<Rightarrow> nat" where
  "rune_extra c cs =
     (let b = byte c in
      if b < 0xC2 then 0
      else if b < 0xE0 then
        (case cs of b1 # _ \<Rightarrow> if between 0x80 0xBF b1 then 1 else 0 | _ \<Rightarrow> 0)
      else if b < 0xF0 then
        (case cs of b1 # b2 # _ \<Rightarrow>
           if between (if b = 0xE0 then 0xA0 else 0x80) (if b = 0xED then 0x9F else 0xBF) b1
              \<and> between 0x80 0xBF b2 then 2 else 0
         | _ \<Rightarrow> 0)
      else if b < 0xF5 then
        (case cs of b1 # b2 # b3 # _ \<Rightarrow>
           if between (if b = 0xF0 then 0x90 else 0x80) (if b = 0xF4 then 0x8F else 0xBF) b1
              \<and> between 0x80 0xBF b2 \<and> between 0x80 0xBF b3 then 3 else 0
         | _ \<Rightarrow> 0)
      else 0)"

fun runes :: "string \<Rightarrow> rune list" where
  "runes [] = []"
| "runes (c # cs) = (c # take (rune_extra c cs) cs) # runes (drop (rune_extra c cs) cs)"

definition ascii :: "char \<Rightarrow> bool" where
  "ascii c = (byte c < 0x80)"

definition asc :: "string \<Rightarrow> rune list" where
  "asc s = map (\<lambda>c. [c]) s"

section \<open>The fragment of regexp used by the matchers\<close>

text \<open>
  The patterns that \<^verbatim>\<open>matcher.compile\<close> hands to \<^verbatim>\<open>regexp.MustCompile\<close> use literals,
  \<^verbatim>\<open>.\<close>, bracket classes of alphanumeric ranges, the repetitions \<^verbatim>\<open>{n}\<close> and \<^verbatim>\<open>+\<close> on a
  single-rune atom, unnested capture groups, and the anchors \<^verbatim>\<open>^\<close> and \<^verbatim>\<open>$\<close>.
  The syntax tree below covers that fragment; \<open>regexp_Compile\<close> returns \<open>None\<close> on
  a pattern outside it (which includes every pattern that Go rejects).
\<close>

datatype atom = Lit char | AnyNotNL | Class "(char \<times> char) list"

datatype piece = One atom | Exactly atom nat | Plus atom

datatype node = BeginText | EndText | Piece piece | Capture "piece list"

definition is_digit :: "char \<Rightarrow> bool" where
  "is_digit c = between 0x30 0x39 c"

definition is_alnum :: "char \<Rightarrow> bool" where
  "is_alnum c = (between 0x30 0x39 c \<or> between 0x41 0x5A c \<or> between 0x61 0x7A c)"

definition is_meta :: "char \<Rightarrow> bool" where
  "is_meta c = (c = CHR 0x5C \<or> c \<in> set ''.+*?()|[]{}^$'')"

subsection \<open>Parsing a pattern\<close>

fun parse_class :: "string \<Rightarrow> (char \<times> char) list \<Rightarrow> ((char \<times> char) list \<times> string) option" where
  "parse_class [] acc = None"
| "parse_class (c # cs) acc =
     (if c = CHR '']'' then (if acc = [] then None else Some (rev acc, cs))
      else if is_alnum c then
        (case cs of
           d # e # cs' \<Rightarrow>
             if d = CHR ''-'' then
               (if is_alnum e \<and> byte c \<le> byte e then parse_class cs' ((c, e) # acc) else None)
             else parse_class cs ((c, c) # acc)
         | _ \<Rightarrow> parse_class cs ((c, c) # acc))
      else None)"

fun parse_atom :: "string \<Rightarrow> (atom \<times> string) option" where
  "parse_atom [] = None"
| "parse_atom (c # cs) =
     (if c = CHR ''.'' then Some (AnyNotNL, cs)
      else if c = CHR ''['' then
        (case parse_class cs [] of None \<Rightarrow> None | Some (rs, r) \<Rightarrow> Some (Class rs, r))
      else if ascii c \<and> \<not> is_meta c then Some (Lit c, cs)
      else None)"

fun parse_count :: "string \<Rightarrow> nat \<Rightarrow> (nat \<times> string) option" where
  "parse_count [] n = None"
| "parse_count (c # cs) n =
     (if c = CHR ''}'' then Some (n, cs)
      else if is_digit c then parse_count cs (10 * n + (byte c - 0x30))
      else None)"

fun parse_quant :: "atom \<Rightarrow> string \<Rightarrow> (piece \<times> string) option" where
  "parse_quant a [] = Some (One a, [])"
| "parse_quant a (c # cs) =
     (if c = CHR ''+'' then Some (Plus a, cs)
      else if c = CHR ''{'' then
        (case cs of
           d # _ \<Rightarrow>
             if is_digit d then
               (case parse_count cs 0 of None \<Rightarrow> None | Some (n, r) \<Rightarrow> Some (Exactly a n, r))
             else None
         | [] \<Rightarrow> None)
      else Some (One a, c # cs))"

definition parse_piece :: "string \<Rightarrow> (piece \<times> string) option" where
  "parse_piece s = (case parse_atom s of None \<Rightarrow> None | Some (a, r) \<Rightarrow> parse_quant a r)"

lemma parse_class_shorter: "parse_class s acc = Some (rs, r) \<Longrightarrow> length r < length s"
  by (induction s acc rule: parse_class.induct)
     (simp_all split: if_splits list.splits)

lemma parse_atom_shorter: "parse_atom s = Some (a, r) \<Longrightarrow> length r < length s"
  by (cases s) (auto split: if_splits option.splits dest: parse_class_shorter)

lemma parse_count_shorter: "parse_count s n = Some (k, r) \<Longrightarrow> length r < length s"
  by (induction s n rule: parse_count.induct) (simp_all split: if_splits)

lemma parse_quant_shorter: "parse_quant a s = Some (p, r) \<Longrightarrow> length r \<le> length s"
  by (cases s) (auto split: if_splits option.splits list.splits dest: parse_count_shorter)

lemma parse_piece_shorter: "parse_piece s = Some (p, r) \<Longrightarrow> length r < length s"
  unfolding parse_piece_def
  by (auto split: option.splits dest!: parse_atom_shorter parse_quant_shorter)

text \<open>The pieces of a group, up to its closing parenthesis.\<close>

function parse_group :: "string \<Rightarrow> (piece list \<times> string) option" where
  "parse_group s =
     (case s of
        [] \<Rightarrow> None
      | c # cs \<Rightarrow>
          if c = CHR '')'' then Some ([], cs)
          else (case parse_piece s of
                  None \<Rightarrow> None
                | Some (p, r) \<Rightarrow>
                    (case parse_group r of None \<Rightarrow> None | Some (ps, r') \<Rightarrow> Some (p # ps, r'))))"
  by pat_completeness auto
termination
  by (relation "measure length") (auto dest: parse_piece_shorter)

declare parse_group.simps [simp del]

lemma parse_group_shorter: "parse_group s = Some (ps, r) \<Longrightarrow> length r < length s"
proof (induction s arbitrary: ps r rule: parse_group.induct)
  case (1 s)
  show ?case
  proof (cases s)
    case Nil
    with "1.prems" show ?thesis by (simp add: parse_group.simps)
  next
    case (Cons c cs)
    show ?thesis
    proof (cases "c = CHR '')''")
      case True
      with Cons "1.prems" show ?thesis by (simp add: parse_group.simps)
    next
      case False
      with Cons "1.prems" obtain p r1 ps' where
        p: "parse_piece s = Some (p, r1)" and g: "parse_group r1 = Some (ps', r)"
        by (auto simp: parse_group.simps [of "c # cs"] split: option.splits)
      from "1.IH" [OF Cons False p refl g] parse_piece_shorter [OF p] show ?thesis by simp
    qed
  qed
qed

text \<open>The top level of a pattern.\<close>

function parse_nodes :: "string \<Rightarrow> node list option" where
  "parse_nodes s =
     (case s of
        [] \<Rightarrow> Some []
      | c # cs \<Rightarrow>
          if c = CHR ''^'' then map_option (Cons BeginText) (parse_nodes cs)
          else if c = CHR ''$'' then map_option (Cons EndText) (parse_nodes cs)
          else if c = CHR ''('' then
            (case parse_group cs of
               None \<Rightarrow> None
             | Some (ps, r) \<Rightarrow> map_option (Cons (Capture ps)) (parse_nodes r))
          else (case parse_piece s of
                  None \<Rightarrow> None
                | Some (p, r) \<Rightarrow> map_option (Cons (Piece p)) (parse_nodes r)))"
  by pat_completeness auto
termination
  by (relation "measure length")
     (auto dest: parse_piece_shorter dest!: parse_group_shorter)

declare parse_nodes.simps [simp del]

definition regexp_Compile :: "string \<Rightarrow> node list option" where
  "regexp_Compile s = parse_nodes s"

subsection \<open>Matching\<close>

text \<open>
  Matching follows Go's leftmost-first rule: candidate matches are produced in the
  order a backtracking matcher would try them (a greedy \<^verbatim>\<open>+\<close> tries the longest
  repetition first), and the first candidate wins.
\<close>

fun atom_ok :: "atom \<Rightarrow> rune \<Rightarrow> bool" where
  "atom_ok (Lit c) r = (r = [c])"
| "atom_ok AnyNotNL r = (r \<noteq> [] \<and> r \<noteq> [CHR 0x0A])"
| "atom_ok (Class rs) r =
     (case r of [c] \<Rightarrow> list_ex (\<lambda>(lo, hi). byte lo \<le> byte c \<and> byte c \<le> byte hi) rs
              | _ \<Rightarrow> False)"

fun plus_splits :: "atom \<Rightarrow> rune list \<Rightarrow> (rune list \<times> rune list) list" where
  "plus_splits a [] = []"
| "plus_splits a (r # rs) =
     (if atom_ok a r
      then map (\<lambda>(t, u). (r # t, u)) (plus_splits a rs) @ [([r], rs)]
      else [])"

fun match_piece :: "piece \<Rightarrow> rune list \<Rightarrow> (rune list \<times> rune list) list" where
  "match_piece (One a) rs =
     (case rs of r # rs' \<Rightarrow> if atom_ok a r then [([r], rs')] else [] | [] \<Rightarrow> [])"
| "match_piece (Exactly a n) rs =
     (if n \<le> length rs \<and> list_all (atom_ok a) (take n rs) then [(take n rs, drop n rs)] else [])"
| "match_piece (Plus a) rs = plus_splits a rs"

fun match_pieces :: "piece list \<Rightarrow> rune list \<Rightarrow> (rune list \<times> rune list) list" where
  "match_pieces [] rs = [([], rs)]"
| "match_pieces (p # ps) rs =
     concat (map (\<lambda>(t, r). map (\<lambda>(t', r'). (t @ t', r')) (match_pieces ps r))
                 (match_piece p rs))"

text \<open>
  \<open>match_nodes ns at0 rs\<close>: the candidate matches of the node sequence \<open>ns\<close> at the
  current position, where \<open>rs\<close> is the rest of the input and \<open>at0\<close> says whether the
  position is the beginning of the text. A candidate is the matched runes, the
  captured strings and the unmatched rest.
\<close>

fun match_nodes :: "node list \<Rightarrow> bool \<Rightarrow> rune list \<Rightarrow> (rune list \<times> string list \<times> rune list) list" where
  "match_nodes [] at0 rs = [([], [], rs)]"
| "match_nodes (BeginText # ns) at0 rs = (if at0 then match_nodes ns at0 rs else [])"
| "match_nodes (EndText # ns) at0 rs = (if rs = [] then match_nodes ns at0 rs else [])"
| "match_nodes (Piece p # ns) at0 rs =
     concat (map (\<lambda>(t, r). map (\<lambda>(t', caps, r'). (t @ t', caps, r'))
                               (match_nodes ns (at0 \<and> t = []) r))
                 (match_piece p rs))"
| "match_nodes (Capture ps # ns) at0 rs =
     concat (map (\<lambda>(t, r). map (\<lambda>(t', caps, r'). (t @ t', concat t # caps, r'))
                               (match_nodes ns (at0 \<and> t = []) r))
                 (match_pieces ps rs))"

text \<open>
  The search for the leftmost match: try the current position, then the position
  after the next rune. The result is the whole match followed by the captures, or
  the empty list (Go's nil slice) when nothing matches.
\<close>

fun find_at :: "node list \<Rightarrow> bool \<Rightarrow> rune list \<Rightarrow> string list" where
  "find_at re at0 [] =
     (case match_nodes re at0 [] of (t, caps, r) # _ \<Rightarrow> concat t # caps | [] \<Rightarrow> [])"
| "find_at re at0 (x # xs) =
     (case match_nodes re at0 (x # xs) of
        (t, caps, r) # _ \<Rightarrow> concat t # caps
      | [] \<Rightarrow> find_at re False xs)"

definition FindStringSubmatch :: "node list \<Rightarrow> string \<Rightarrow> string list" where
  "FindStringSubmatch re s = find_at re True (runes s)"

section \<open>Library functions: fmt, strconv, time\<close>

subsection \<open>fmt.Sprintf\<close>

text \<open>
  The fragment of \<^verbatim>\<open>fmt.Sprintf\<close> in use: the verb \<^verbatim>\<open>%s\<close> on a string operand and the
  verb \<^verbatim>\<open>%d\<close>, with an optional \<^verbatim>\<open>0\<close> flag and width, on an int operand. The result is
  \<open>None\<close> for a format or operand outside the fragment (another verb or flag, an
  operand of the wrong type, too few or too many operands: what Go reports inside
  the output string with a \<^verbatim>\<open>%!\<close> marker).
\<close>

datatype arg = S string | D int

definition digit_char :: "nat \<Rightarrow> char" where
  "digit_char n = char_of (48 + n)"

fun digits :: "nat \<Rightarrow> string" where
  "digits n = (if n < 10 then [digit_char n] else digits (n div 10) @ [digit_char (n mod 10)])"

declare digits.simps [simp del]

definition digit_val :: "char \<Rightarrow> nat" where
  "digit_val c = byte c - 48"

text \<open>\<^verbatim>\<open>fmt.fmtInteger\<close> in base 10: with the zero flag the width, less one for a sign, is
  the minimal number of digits; otherwise the width is reached with spaces.\<close>

definition fmt_d :: "bool \<Rightarrow> nat option \<Rightarrow> int \<Rightarrow> string" where
  "fmt_d zero wid i =
     (let ds = digits (nat \<bar>i\<bar>);
          prec = (case wid of
                    Some w \<Rightarrow> if zero then (if i < 0 then w - 1 else w) else 0
                  | None \<Rightarrow> 0);
          body = replicate (prec - length ds) (CHR ''0'') @ ds;
          signed = (if i < 0 then CHR ''-'' # body else body)
      in case wid of
           Some w \<Rightarrow> replicate (w - length signed) (CHR '' '') @ signed
         | None \<Rightarrow> signed)"

definition directive :: "bool \<Rightarrow> nat option \<Rightarrow> char \<Rightarrow> arg \<Rightarrow> string option" where
  "directive zero wid verb a =
     (if verb = CHR ''s'' then
        (case a of S v \<Rightarrow> if \<not> zero \<and> wid = None then Some v else None | D _ \<Rightarrow> None)
      else if verb = CHR ''d'' then
        (case a of D i \<Rightarrow> Some (fmt_d zero wid i) | S _ \<Rightarrow> None)
      else None)"

datatype fstate = Text | Flags bool | Width bool nat

fun doPrintf :: "fstate \<Rightarrow> string \<Rightarrow> arg list \<Rightarrow> string option" where
  "doPrintf Text [] args = (if args = [] then Some [] else None)"
| "doPrintf Text (c # cs) args =
     (if c = CHR ''%'' then doPrintf (Flags False) cs args
      else map_option (Cons c) (doPrintf Text cs args))"
| "doPrintf (Flags z) [] args = None"
| "doPrintf (Flags z) (c # cs) args =
     (if c = CHR ''0'' then doPrintf (Flags True) cs args
      else if is_digit c then doPrintf (Width z (digit_val c)) cs args
      else (case args of
              [] \<Rightarrow> None
            | a # as \<Rightarrow>
                (case directive z None c a of
                   None \<Rightarrow> None
                 | Some out \<Rightarrow> map_option (append out) (doPrintf Text cs as))))"
| "doPrintf (Width z w) [] args = None"
| "doPrintf (Width z w) (c # cs) args =
     (if is_digit c then doPrintf (Width z (10 * w + digit_val c)) cs args
      else (case args of
              [] \<Rightarrow> None
            | a # as \<Rightarrow>
                (case directive z (Some w) c a of
                   None \<Rightarrow> None
                 | Some out \<Rightarrow> map_option (append out) (doPrintf Text cs as))))"

definition Sprintf :: "string \<Rightarrow> arg list \<Rightarrow> string option" where
  "Sprintf format args = doPrintf Text format args"

subsection \<open>strconv.Atoi\<close>

text \<open>The value of a string of decimal digits.\<close>

definition number :: "string \<Rightarrow> nat" where
  "number ds = foldl (\<lambda>n c. 10 * n + digit_val c) 0 ds"

text \<open>An optional sign and at least one decimal digit; the value must fit Go's 64-bit int.\<close>

definition Atoi :: "string \<Rightarrow> int option" where
  "Atoi s =
     (let neg = (case s of c # _ \<Rightarrow> c = CHR ''-'' | [] \<Rightarrow> False);
          ds = (case s of c # cs \<Rightarrow> if c = CHR ''-'' \<or> c = CHR ''+'' then cs else s | [] \<Rightarrow> [])
      in if ds = [] \<or> \<not> list_all is_digit ds then None
         else (let n = int (number ds);
                   v = (if neg then - n else n)
               in if - (2 ^ 63) \<le> v \<and> v < 2 ^ 63 then Some v else None))"

subsection \<open>time.Parse and Time.Format\<close>

text \<open>
  A \<^verbatim>\<open>time.Time\<close> obtained from \<^verbatim>\<open>time.Parse\<close> with a layout without zone is a UTC time;
  it is represented by its civil fields. Both layouts are constants of the source:
  \<^verbatim>\<open>"2006-01-02T15:04:05.9Z"\<close> for parsing and \<^verbatim>\<open>"2006-01-02 15_04_05"\<close> for formatting.
\<close>

record Time =
  year :: nat
  month :: nat
  day :: nat
  hour :: nat
  minute :: nat
  second :: nat
  nsec :: nat

text \<open>\<^verbatim>\<open>getnum\<close>: one or two digits, exactly two when \<open>fixed\<close>.\<close>

fun getnum :: "string \<Rightarrow> bool \<Rightarrow> (nat \<times> string) option" where
  "getnum [] fixed = None"
| "getnum [c] fixed = (if is_digit c \<and> \<not> fixed then Some (digit_val c, []) else None)"
| "getnum (c # d # r) fixed =
     (if \<not> is_digit c then None
      else if is_digit d then Some (10 * digit_val c + digit_val d, r)
      else if fixed then None
      else Some (digit_val c, d # r))"

text \<open>\<^verbatim>\<open>skip\<close> for a one-byte literal prefix of the layout.\<close>

fun skip :: "char \<Rightarrow> string \<Rightarrow> string option" where
  "skip p [] = None"
| "skip p (c # cs) = (if c = p then Some cs else None)"

definition isLeap :: "nat \<Rightarrow> bool" where
  "isLeap y = (y mod 4 = 0 \<and> (y mod 100 \<noteq> 0 \<or> y mod 400 = 0))"

definition daysIn :: "nat \<Rightarrow> nat \<Rightarrow> nat" where
  "daysIn m y =
     (if m = 2 then (if isLeap y then 29 else 28)
      else if m \<in> {4, 6, 9, 11} then 30 else 31)"

text \<open>
  The layout element \<^verbatim>\<open>.9\<close>: a fraction is read when the value continues with a period
  or comma and a digit, with as many digits as follow (nine are kept); otherwise
  the fraction is taken as omitted.
\<close>

definition fracSecond :: "string \<Rightarrow> nat \<times> string" where
  "fracSecond v =
     (case v of
        p # d # _ \<Rightarrow>
          if (p = CHR ''.'' \<or> p = CHR '','') \<and> is_digit d then
            (let ds = takeWhile is_digit (tl v);
                 kept = take 9 ds
             in (number kept * 10 ^ (9 - length kept),
                 drop (length ds) (tl v)))
          else (0, v)
      | _ \<Rightarrow> (0, v))"

text \<open>A literal byte of the layout followed by a numeric field.\<close>

definition field :: "char \<Rightarrow> bool \<Rightarrow> string \<Rightarrow> (nat \<times> string) option" where
  "field sep fixed v = (case skip sep v of None \<Rightarrow> None | Some v' \<Rightarrow> getnum v' fixed)"

text \<open>
  \<^verbatim>\<open>time.Parse("2006-01-02T15:04:05.9Z", v)\<close>; \<open>None\<close> is a returned error. The year
  is four digits, month, day, minute and second two digits, the hour one or two;
  month, hour, minute and second are range-checked as they are read, the day at
  the end against the length of the month.
\<close>

definition time_Parse :: "string \<Rightarrow> Time option" where
  "time_Parse v =
     (if length v < 4 \<or> \<not> list_all is_digit (take 4 v) then None
      else
        Option.bind (field (CHR ''-'') True (drop 4 v)) (\<lambda>(mo, v2).
        if mo = 0 \<or> 12 < mo then None else
        Option.bind (field (CHR ''-'') True v2) (\<lambda>(d, v4).
        Option.bind (field (CHR ''T'') False v4) (\<lambda>(h, v6).
        if 24 \<le> h then None else
        Option.bind (field (CHR '':'') True v6) (\<lambda>(mi, v8).
        if 60 \<le> mi then None else
        Option.bind (field (CHR '':'') True v8) (\<lambda>(sec, v10).
        if 60 \<le> sec then None
        else if skip (CHR ''Z'') (snd (fracSecond v10)) \<noteq> Some [] then None
        else if d < 1 \<or> daysIn mo (number (take 4 v)) < d then None
        else Some \<lparr>year = number (take 4 v), month = mo, day = d, hour = h,
                    minute = mi, second = sec, nsec = fst (fracSecond v10)\<rparr>))))))"

text \<open>\<^verbatim>\<open>appendInt\<close> of package time: zero-padded to a width.\<close>

definition appendInt :: "nat \<Rightarrow> nat \<Rightarrow> string" where
  "appendInt x width = replicate (width - length (digits x)) (CHR ''0'') @ digits x"

text \<open>\<^verbatim>\<open>t.Format("2006-01-02 15_04_05")\<close>.\<close>

definition Time_Format :: "Time \<Rightarrow> string" where
  "Time_Format t =
     appendInt (year t) 4 @ ''-'' @ appendInt (month t) 2 @ ''-'' @ appendInt (day t) 2 @ '' '' @
     appendInt (hour t) 2 @ ''_'' @ appendInt (minute t) 2 @ ''_'' @ appendInt (second t) 2"

section \<open>Package format: tokens and matchers\<close>

record token =
  name :: string
  Index :: nat
  captureGroup :: string
  formatSpecifier :: string

record tokens =
  Slice :: "token list"
  Map :: "string \<rightharpoonup> token"

text \<open>\<open>Regex\<close> is a pointer in the source: \<open>None\<close> is nil, its value before \<open>compile\<close>.\<close>

record matcher =
  base :: string
  Tokens :: tokens
  Layout :: string
  regexStr :: string
  Regex :: "node list option"

text \<open>The struct literal \<^verbatim>\<open>matcher{base: b, Tokens: tokens{Slice: ts}}\<close>.\<close>

definition matcher_lit :: "string \<Rightarrow> token list \<Rightarrow> matcher" where
  "matcher_lit b ts =
     \<lparr>base = b, Tokens = \<lparr>Slice = ts, Map = Map.empty\<rparr>, Layout = [], regexStr = [],
      Regex = None\<rparr>"

text \<open>The loop of \<open>compile\<close> over the tokens: each token gets its position as index and is
  entered in the map under its name (a later token of the same name replaces an earlier one).\<close>

fun index_tokens :: "nat \<Rightarrow> token list \<Rightarrow> token list" where
  "index_tokens i [] = []"
| "index_tokens i (t # ts) = t\<lparr>Index := i\<rparr> # index_tokens (Suc i) ts"

fun map_tokens :: "token list \<Rightarrow> (string \<rightharpoonup> token) \<Rightarrow> (string \<rightharpoonup> token)" where
  "map_tokens [] m = m"
| "map_tokens (t # ts) m = map_tokens ts (m(name t \<mapsto> t))"

text \<open>\<open>None\<close>: \<^verbatim>\<open>regexp.MustCompile\<close> panics, or a format lies outside the modelled fragment.\<close>

definition compile :: "matcher \<Rightarrow> matcher option" where
  "compile m =
     (let sl = index_tokens 0 (Slice (Tokens m));
          formatSpecifiers = map (\<lambda>t. S (formatSpecifier t)) sl;
          captureGroups = map (\<lambda>t. S (''('' @ captureGroup t @ '')'')) sl
      in case Sprintf (base m) formatSpecifiers of None \<Rightarrow> None | Some layout \<Rightarrow>
         case Sprintf (''^'' @ base m @ ''$'') captureGroups of None \<Rightarrow> None | Some rstr \<Rightarrow>
         case regexp_Compile rstr of None \<Rightarrow> None | Some re \<Rightarrow>
           Some (m\<lparr>Tokens := \<lparr>Slice = sl, Map = map_tokens sl Map.empty\<rparr>,
                   Layout := layout, regexStr := rstr, Regex := Some re\<rparr>))"

definition tokenDate :: token where
  "tokenDate = \<lparr>name = ''date'', Index = 0,
     captureGroup = ''[0-9]{4}-[0-9]{2}-[0-9]{2} [0-9]{2}_[0-9]{2}_[0-9]{2}'',
     formatSpecifier = ''%s''\<rparr>"

definition tokenId :: token where
  "tokenId = \<lparr>name = ''id'', Index = 0, captureGroup = ''[0-9]{4}'', formatSpecifier = ''%s''\<rparr>"

definition tokenIndex :: token where
  "tokenIndex = \<lparr>name = ''index'', Index = 0, captureGroup = ''[0-9]{2}'',
     formatSpecifier = ''%02d''\<rparr>"

definition tokenExtension :: token where
  "tokenExtension = \<lparr>name = ''extension'', Index = 0, captureGroup = ''[a-zA-Z0-9]+'',
     formatSpecifier = ''%s''\<rparr>"

definition tokenCodec :: token where
  "tokenCodec = \<lparr>name = ''codec'', Index = 0, captureGroup = ''[XH]'', formatSpecifier = ''%s''\<rparr>"

text \<open>The package-level matchers; \<open>None\<close> would mean that initialisation panicked.\<close>

definition Raw :: "matcher option" where
  "Raw = compile (matcher_lit ''G%s%s%s.%s'' [tokenCodec, tokenIndex, tokenId, tokenExtension])"

definition Renamed :: "matcher option" where
  "Renamed = compile (matcher_lit ''Recording _-_ Date %s _-_ ID %s _-_ Part %s.%s''
                        [tokenDate, tokenId, tokenIndex, tokenExtension])"

definition Merged :: "matcher option" where
  "Merged = compile (matcher_lit ''Recording _-_ Date %s _-_ ID %s.%s''
                       [tokenDate, tokenId, tokenExtension])"

section \<open>Package entrypoint: fragments\<close>

datatype error =
    ProbeFailed
  | JsonError
  | TagNotEmbedded
  | TagNotString
  | TimeParseError
  | CannotParseRaw
  | IndexNotInteger
  | CannotParsePretty
  | AtoiError
  | CannotParseMerged
  | NameNotParseable
  | RenameError

text \<open>
  The result of a Go function that returns an \<^verbatim>\<open>error\<close>: \<open>Returned x\<close> is a nil error
  (with the value or the updated receiver \<open>x\<close>), \<open>Failed e\<close> a returned error,
  \<open>Panicked\<close> a run-time panic, which ends the program.
\<close>

datatype 'a outcome = Returned 'a | Failed error | Panicked

text \<open>A value whose absence is a panic: an index out of range, a nil pointer.\<close>

definition must :: "'a option \<Rightarrow> ('a \<Rightarrow> 'b outcome) \<Rightarrow> 'b outcome" where
  "must x f = (case x of None \<Rightarrow> Panicked | Some v \<Rightarrow> f v)"

definition index :: "'a list \<Rightarrow> nat \<Rightarrow> 'a option" where
  "index xs i = (if i < length xs then Some (xs ! i) else None)"

record Metadata =
  Codec :: string
  CreationTime :: "Time option"

record Video = Metadata +
  Id :: string

record VideoFragment = Video +
  Index :: int
  Extension :: string
  CurrentName :: string
  NewName :: string

definition CreationTimeString :: "Time option \<Rightarrow> string" where
  "CreationTimeString ct = (case ct of None \<Rightarrow> [] | Some t \<Rightarrow> Time_Format t)"

subsection \<open>The probe\<close>

text \<open>
  \<open>parseMetadata\<close> runs \<^verbatim>\<open>ffprobe\<close> on the fragment's path and decodes its JSON output
  into \<^verbatim>\<open>ff.ProbeData\<close>. The external program and the decoder are a parameter: for
  each path, the command fails, or its output does not decode, or it decodes to
  the streams' codec names and the tags of the format section. A tag is an
  \<^verbatim>\<open>interface{}\<close>, a string or something else.
\<close>

datatype tag = TagString string | TagOther

record Stream =
  CodecName :: string

record ProbeData =
  Streams :: "Stream list"
  Format_Tags :: "string \<rightharpoonup> tag"

datatype probe_reply = ExecError | UnmarshalError | Decoded ProbeData

record env =
  InputDirPath :: string
  filepath_Join :: "string \<Rightarrow> string \<Rightarrow> string"
  ffprobe :: "string \<Rightarrow> probe_reply"

definition InputPath :: "env \<Rightarrow> 'a VideoFragment_scheme \<Rightarrow> string" where
  "InputPath e f = filepath_Join e (InputDirPath e) (CurrentName f)"

definition NewPath :: "env \<Rightarrow> 'a VideoFragment_scheme \<Rightarrow> string" where
  "NewPath e f = filepath_Join e (InputDirPath e) (NewName f)"

definition parseMetadata :: "env \<Rightarrow> VideoFragment \<Rightarrow> VideoFragment outcome" where
  "parseMetadata e vf =
     (case ffprobe e (InputPath e vf) of
        ExecError \<Rightarrow> Failed ProbeFailed
      | UnmarshalError \<Rightarrow> Failed JsonError
      | Decoded data \<Rightarrow>
          must (index (Streams data) 0) (\<lambda>stream.
            (case Format_Tags data ''creation_time'' of
               None \<Rightarrow> Failed TagNotEmbedded
             | Some TagOther \<Rightarrow> Failed TagNotString
             | Some (TagString creationTimeStr) \<Rightarrow>
                 (case time_Parse creationTimeStr of
                    None \<Rightarrow> Failed TimeParseError
                  | Some creationTime \<Rightarrow>
                      Returned (vf\<lparr>Codec := CodecName stream,
                                    CreationTime := Some creationTime\<rparr>)))))"

subsection \<open>The name parsers\<close>

text \<open>Each parser assigns to the fragment only after its last check, so a failed parser
  leaves the fragment as it was.\<close>

definition parseRaw :: "VideoFragment \<Rightarrow> VideoFragment outcome" where
  "parseRaw vf =
     must Raw (\<lambda>m. must (Regex m) (\<lambda>re.
       let matches = FindStringSubmatch re (CurrentName vf) in
       if length matches < length (Slice (Tokens m)) then Failed CannotParseRaw
       else must (index matches 2) (\<lambda>m2.
         case Atoi m2 of
           None \<Rightarrow> Failed IndexNotInteger
         | Some i \<Rightarrow>
             must (index matches 3) (\<lambda>m3. must (index matches 4) (\<lambda>m4.
               Returned (vf\<lparr>Id := m3, Index := i, Extension := m4\<rparr>))))))"

definition parseRenamed :: "VideoFragment \<Rightarrow> VideoFragment outcome" where
  "parseRenamed vf =
     must Renamed (\<lambda>m. must (Regex m) (\<lambda>re.
       let matches = FindStringSubmatch re (CurrentName vf) in
       if length matches < length (Slice (Tokens m)) then Failed CannotParsePretty
       else must (Map (Tokens m) ''index'') (\<lambda>ti. must (index matches (token.Index ti + 1)) (\<lambda>mi.
         case Atoi mi of
           None \<Rightarrow> Failed AtoiError
         | Some i \<Rightarrow>
             must (Map (Tokens m) ''id'') (\<lambda>tid. must (index matches (token.Index tid + 1)) (\<lambda>mid.
             must (Map (Tokens m) ''extension'') (\<lambda>te. must (index matches (token.Index te + 1)) (\<lambda>me.
               Returned (vf\<lparr>Id := mid, Index := i, Extension := me\<rparr>)))))))))"

definition parseMerged :: "VideoFragment \<Rightarrow> VideoFragment outcome" where
  "parseMerged vf =
     must Merged (\<lambda>m. must (Regex m) (\<lambda>re.
       let matches = FindStringSubmatch re (CurrentName vf) in
       if length matches < length (Slice (Tokens m)) then Failed CannotParseMerged
       else must (index matches 2) (\<lambda>m2. must (index matches 3) (\<lambda>m3.
         Returned (vf\<lparr>Id := m2, Extension := m3\<rparr>)))))"

text \<open>
  \<open>Parse\<close>: the loop over the name parsers. After the first parser that returns
  nil the metadata is read and the new name is formatted with the layout of the
  renamed matcher; a parser that returns an error is followed by the next one.
\<close>

definition finish :: "env \<Rightarrow> VideoFragment \<Rightarrow> VideoFragment outcome" where
  "finish e vf =
     (case parseMetadata e vf of
        Failed err \<Rightarrow> Failed err
      | Panicked \<Rightarrow> Panicked
      | Returned vf' \<Rightarrow>
          must Renamed (\<lambda>m.
          must (Sprintf (Layout m) [S (CreationTimeString (CreationTime vf')), S (Id vf'),
                                    D (Index vf'), S (Extension vf')])
               (\<lambda>n. Returned (vf'\<lparr>NewName := n\<rparr>))))"

fun Parse_loop :: "env \<Rightarrow> (VideoFragment \<Rightarrow> VideoFragment outcome) list \<Rightarrow> VideoFragment
                   \<Rightarrow> VideoFragment outcome" where
  "Parse_loop e [] vf = Failed NameNotParseable"
| "Parse_loop e (nameParser # rest) vf =
     (case nameParser vf of
        Returned vf' \<Rightarrow> finish e vf'
      | Failed err \<Rightarrow> Parse_loop e rest vf
      | Panicked \<Rightarrow> Panicked)"

definition Parse :: "env \<Rightarrow> VideoFragment \<Rightarrow> VideoFragment outcome" where
  "Parse e vf = Parse_loop e [parseRenamed, parseRaw, parseMerged] vf"

section \<open>Package entrypoint: the list of videos\<close>

record VideoWhole = Video +
  Fragments :: "VideoFragment list"
  Expected :: int
  Name :: string

type_synonym VideoList = "string \<rightharpoonup> VideoWhole"

text \<open>The struct literal \<^verbatim>\<open>VideoFragment{CurrentName: name}\<close>.\<close>

definition fragment_lit :: "string \<Rightarrow> VideoFragment" where
  "fragment_lit n = \<lparr>Codec = [], CreationTime = None, Id = [], Index = 0, Extension = [],
                     CurrentName = n, NewName = []\<rparr>"

text \<open>The struct literal \<^verbatim>\<open>&VideoWhole{Video: f.Video, Fragments: []VideoFragment{}}\<close>.\<close>

definition whole_lit :: "VideoFragment \<Rightarrow> VideoWhole" where
  "whole_lit f = \<lparr>Codec = Codec f, CreationTime = CreationTime f, Id = Id f,
                  Fragments = [], Expected = 0, Name = []\<rparr>"

text \<open>
  The part of \<open>Add\<close> that runs under \<^verbatim>\<open>videosMutex\<close>. \<open>merged\<close> is the entry for the
  fragment's id, created first when the id is new; the assignments through the
  pointer are collected and written back to the map.
\<close>

definition Add_locked :: "VideoFragment \<Rightarrow> VideoList \<Rightarrow> VideoList outcome" where
  "Add_locked f vl =
     (let merged = (case vl (Id f) of None \<Rightarrow> whole_lit f | Some w \<Rightarrow> w);
          f1 = (if CreationTime merged \<noteq> None then f\<lparr>CreationTime := CreationTime merged\<rparr>
                else f);
          merged1 = (if CreationTime merged \<noteq> None then merged
                     else merged\<lparr>CreationTime := CreationTime f\<rparr>);
          merged2 = merged1\<lparr>Fragments := Fragments merged1 @ [f1]\<rparr>;
          merged3 = (if Index f1 > Expected merged2 then merged2\<lparr>Expected := Index f1\<rparr>
                     else merged2)
      in if Name merged3 = [] then
           must Merged (\<lambda>m.
           must (Sprintf (Layout m) [S (CreationTimeString (CreationTime merged3)),
                                     S (Id merged3), S ''mkv''])
                (\<lambda>n. Returned (vl(Id f \<mapsto> merged3\<lparr>Name := n\<rparr>))))
         else Returned (vl(Id f \<mapsto> merged3)))"

text \<open>\<open>Add\<close> returns the list of videos after the call and what the call returned.\<close>

definition Add :: "env \<Rightarrow> string \<Rightarrow> VideoList \<Rightarrow> VideoList \<times> unit outcome" where
  "Add e n vl =
     (case Parse e (fragment_lit n) of
        Failed err \<Rightarrow> (vl, Failed err)
      | Panicked \<Rightarrow> (vl, Panicked)
      | Returned f \<Rightarrow>
          (case Add_locked f vl of
             Returned vl' \<Rightarrow> (vl', Returned ())
           | Failed err \<Rightarrow> (vl, Failed err)
           | Panicked \<Rightarrow> (vl, Panicked)))"

text \<open>
  \<open>VideoList.Parse\<close> starts one goroutine per directory entry; each calls \<open>Add\<close>,
  logs a returned error and goes on. Outside the mutex a call reads only its own
  fragment, the matchers and the probe, so a run is determined by the order in
  which the calls take the mutex: \<open>Add_entries e ns vl\<close> is the list after the
  calls for \<open>ns\<close> in that order, \<open>None\<close> when a call panics.
\<close>

fun Add_entries :: "env \<Rightarrow> string list \<Rightarrow> VideoList \<Rightarrow> VideoList option" where
  "Add_entries e [] vl = Some vl"
| "Add_entries e (n # ns) vl =
     (case Add e n vl of
        (vl', Panicked) \<Rightarrow> None
      | (vl', _) \<Rightarrow> Add_entries e ns vl')"

section \<open>Package entrypoint: renaming\<close>

text \<open>
  What \<open>rename\<close> does is recorded as a trace of events; the file system is a
  parameter \<open>os_Rename\<close>, which takes the old and the new path and the file
  system and gives the file system afterwards and an error or nil.
\<close>

datatype event =
    Print_Message bool
  | Print_Newline
  | Print_From_To string string
  | Log_Already_Renamed string
  | Os_Rename string string
  | Log_Warn error

type_synonym 'fs world = "event list \<times> 'fs"

type_synonym 'fs action = "string \<Rightarrow> string \<Rightarrow> 'fs world \<Rightarrow> 'fs world \<times> error option"

definition emit :: "event \<Rightarrow> 'fs world \<Rightarrow> 'fs world" where
  "emit ev w = (fst w @ [ev], snd w)"

definition renameInfo :: "'fs action" where
  "renameInfo old new w = (emit (Print_From_To old new) w, None)"

definition renameCommit :: "(string \<Rightarrow> string \<Rightarrow> 'fs \<Rightarrow> 'fs \<times> error option) \<Rightarrow> 'fs action" where
  "renameCommit os_Rename old new w =
     (case os_Rename old new (snd w) of
        (fs', err) \<Rightarrow> ((fst w @ [Os_Rename old new], fs'), err))"

fun run_actions :: "'fs action list \<Rightarrow> 'fs action" where
  "run_actions [] old new w = (w, None)"
| "run_actions (action # rest) old new w =
     (case action old new w of
        (w', Some err) \<Rightarrow> (w', Some err)
      | (w', None) \<Rightarrow> run_actions rest old new w')"

definition renameActionBuilder :: "'fs action list \<Rightarrow> 'fs action" where
  "renameActionBuilder actionList old new w =
     (if old = new then (emit (Log_Already_Renamed old) w, None)
      else run_actions actionList old new w)"

text \<open>The body of the loop of \<open>rename\<close> for one fragment; \<open>k\<close> is \<open>totalFragments\<close>.\<close>

definition rename_fragment :: "env \<Rightarrow> 'fs action \<Rightarrow> nat \<Rightarrow> VideoFragment \<Rightarrow> 'fs world \<Rightarrow> 'fs world" where
  "rename_fragment e renameAction k vf w =
     (let old = InputPath e vf;
          new = NewPath e vf;
          w1 = (if k > 0 then emit Print_Newline w else w)
      in case renameAction old new w1 of
           (w2, Some err) \<Rightarrow> emit (Log_Warn err) w2
         | (w2, None) \<Rightarrow> w2)"

fun rename_loop :: "env \<Rightarrow> 'fs action \<Rightarrow> nat \<Rightarrow> VideoFragment list \<Rightarrow> 'fs world \<Rightarrow> 'fs world" where
  "rename_loop e renameAction k [] w = w"
| "rename_loop e renameAction k (vf # vfs) w =
     rename_loop e renameAction (Suc k) vfs (rename_fragment e renameAction k vf w)"

text \<open>
  \<open>rename\<close>: \<open>commit\<close> is \<^verbatim>\<open>root.Rename.Commit\<close>, and \<open>vms\<close> the entries of the map in the
  order in which the \<^verbatim>\<open>range\<close> loop visits them.
\<close>

definition rename :: "env \<Rightarrow> bool \<Rightarrow> (string \<Rightarrow> string \<Rightarrow> 'fs \<Rightarrow> 'fs \<times> error option)
                      \<Rightarrow> VideoWhole list \<Rightarrow> 'fs world \<Rightarrow> 'fs world" where
  "rename e commit os_Rename vms w =
     (let renameAction = (if commit then renameActionBuilder [renameInfo, renameCommit os_Rename]
                          else renameInfo)
      in rename_loop e renameAction 0 (concat (map Fragments vms)) (emit (Print_Message commit) w))"

section \<open>Vocabulary of the proofs\<close>

text \<open>Atoms that accept only an ASCII byte, pieces of fixed width, the nodes of a literal
  text, the groups of a pattern and the strings a group can capture.\<close>

fun atom_ascii :: "atom \<Rightarrow> bool" where
  "atom_ascii (Lit c) = ascii c"
| "atom_ascii AnyNotNL = False"
| "atom_ascii (Class rs) = list_all (\<lambda>(lo, hi). ascii hi) rs"

fun piece_atom :: "piece \<Rightarrow> atom" where
  "piece_atom (One a) = a"
| "piece_atom (Exactly a n) = a"
| "piece_atom (Plus a) = a"

fun fixed :: "piece \<Rightarrow> bool" where
  "fixed (One a) = True"
| "fixed (Exactly a n) = True"
| "fixed (Plus a) = False"

definition lits :: "string \<Rightarrow> node list" where
  "lits s = map (\<lambda>c. Piece (One (Lit c))) s"

fun groups :: "node list \<Rightarrow> piece list list" where
  "groups [] = []"
| "groups (Capture ps # ns) = ps # groups ns"
| "groups (n # ns) = groups ns"

definition captured :: "piece list \<Rightarrow> string \<Rightarrow> bool" where
  "captured ps c = (\<exists>T R rs. (T, R) \<in> set (match_pieces ps rs) \<and> c = concat T)"

text \<open>The syntax trees of the three compiled patterns, between the anchors.\<close>

definition digit_cls :: atom where
  "digit_cls = Class [(CHR ''0'', CHR ''9'')]"

definition alnum_cls :: atom where
  "alnum_cls = Class [(CHR ''a'', CHR ''z''), (CHR ''A'', CHR ''Z''), (CHR ''0'', CHR ''9'')]"

definition codec_cls :: atom where
  "codec_cls = Class [(CHR ''X'', CHR ''X''), (CHR ''H'', CHR ''H'')]"

definition date_ps :: "piece list" where
  "date_ps = [Exactly digit_cls 4, One (Lit (CHR ''-'')), Exactly digit_cls 2, One (Lit (CHR ''-'')),
              Exactly digit_cls 2, One (Lit (CHR '' '')), Exactly digit_cls 2, One (Lit (CHR ''_'')),
              Exactly digit_cls 2, One (Lit (CHR ''_'')), Exactly digit_cls 2]"

definition tail_nodes :: "node list" where
  "tail_nodes = [Piece (One AnyNotNL), Capture [Plus alnum_cls]]"

definition raw_body :: "node list" where
  "raw_body = lits ''G'' @ [Capture [One codec_cls], Capture [Exactly digit_cls 2],
                            Capture [Exactly digit_cls 4]] @ tail_nodes"

definition renamed_body :: "node list" where
  "renamed_body = lits ''Recording _-_ Date '' @ [Capture date_ps] @ lits '' _-_ ID '' @
                  [Capture [Exactly digit_cls 4]] @ lits '' _-_ Part '' @
                  [Capture [Exactly digit_cls 2]] @ tail_nodes"

definition merged_body :: "node list" where
  "merged_body = lits ''Recording _-_ Date '' @ [Capture date_ps] @ lits '' _-_ ID '' @
                 [Capture [Exactly digit_cls 4]] @ tail_nodes"

text \<open>The two operations of a package-level matcher: the submatches of its pattern in a
  string (empty when the string does not match), and its layout applied to values.\<close>

definition matches_of :: "matcher option \<Rightarrow> string \<Rightarrow> string list" where
  "matches_of M s =
     (case M of None \<Rightarrow> []
      | Some m \<Rightarrow> (case Regex m of None \<Rightarrow> [] | Some re \<Rightarrow> FindStringSubmatch re s))"

definition render :: "matcher option \<Rightarrow> arg list \<Rightarrow> string option" where
  "render M args = (case M of None \<Rightarrow> None | Some m \<Rightarrow> Sprintf (Layout m) args)"

text \<open>
  A string is valid for a token when the token's capture expression, as a pattern
  of its own anchored at both ends, matches it; a value is valid when the token's
  format specifier formats it to such a string. A captured string recovers a
  string value when it equals it, and an integer value when \<open>Atoi\<close> reads it back.
\<close>

definition valid_for :: "token \<Rightarrow> string \<Rightarrow> bool" where
  "valid_for t v =
     (case regexp_Compile (''^('' @ captureGroup t @ '')$'') of
        None \<Rightarrow> False
      | Some re \<Rightarrow> FindStringSubmatch re v \<noteq> [])"

definition valid_arg :: "token \<Rightarrow> arg \<Rightarrow> bool" where
  "valid_arg t a =
     (case Sprintf (formatSpecifier t) [a] of None \<Rightarrow> False | Some v \<Rightarrow> valid_for t v)"

fun recovers :: "string \<Rightarrow> arg \<Rightarrow> bool" where
  "recovers c (S v) = (c = v)"
| "recovers c (D k) = (Atoi c = Some k)"

definition tokens_of :: "matcher option \<Rightarrow> token list" where
  "tokens_of M = (case M of None \<Rightarrow> [] | Some m \<Rightarrow> Slice (Tokens m))"

text \<open>The names that \<open>Parse\<close> and \<open>Add\<close> format, and the entry of a recording after one more
  fragment: the closed form of the part of \<open>Add\<close> under the mutex.\<close>

definition new_name :: "Time option \<Rightarrow> string \<Rightarrow> int \<Rightarrow> string \<Rightarrow> string" where
  "new_name ct i k ex =
     ''Recording _-_ Date '' @ CreationTimeString ct @ '' _-_ ID '' @ i @ '' _-_ Part '' @
     fmt_d True (Some 2) k @ ''.'' @ ex"

definition merged_name :: "Time option \<Rightarrow> string \<Rightarrow> string" where
  "merged_name ct i = ''Recording _-_ Date '' @ CreationTimeString ct @ '' _-_ ID '' @ i @ ''.mkv''"

definition entry_of :: "VideoFragment \<Rightarrow> VideoList \<Rightarrow> VideoWhole" where
  "entry_of f vl = (case vl (Id f) of None \<Rightarrow> whole_lit f | Some w \<Rightarrow> w)"

definition added :: "VideoFragment \<Rightarrow> VideoWhole \<Rightarrow> VideoWhole" where
  "added f w =
     (let ct = (case CreationTime w of None \<Rightarrow> CreationTime f | Some t \<Rightarrow> Some t)
      in w\<lparr>CreationTime := ct,
            Fragments := Fragments w @ [f\<lparr>CreationTime := ct\<rparr>],
            Expected := max (Expected w) (Index f),
            Name := (if Name w = [] then merged_name ct (Id w) else Name w)\<rparr>)"

text \<open>The invariant of the list of videos.\<close>

definition inv_entry :: "string \<Rightarrow> VideoWhole \<Rightarrow> bool" where
  "inv_entry k w =
     (Id w = k \<and> Fragments w \<noteq> [] \<and> CreationTime w \<noteq> None \<and> 0 \<le> Expected w
      \<and> list_all (\<lambda>f. Id f = k \<and> CreationTime f = CreationTime w) (Fragments w))"

definition inv :: "VideoList \<Rightarrow> bool" where
  "inv vl = (\<forall>k w. vl k = Some w \<longrightarrow> inv_entry k w)"

text \<open>A probe that answers with one stream of a codec and a \<^verbatim>\<open>creation_time\<close> tag, an
  environment for a directory \<^verbatim>\<open>/videos\<close>, and the values of the scenario with two
  fragments of recording 0042.\<close>

definition reply :: "string \<Rightarrow> string \<Rightarrow> probe_reply" where
  "reply codec t =
     Decoded \<lparr>Streams = [\<lparr>CodecName = codec\<rparr>], Format_Tags = [''creation_time'' \<mapsto> TagString t]\<rparr>"

definition videos_env :: "(string \<Rightarrow> probe_reply) \<Rightarrow> env" where
  "videos_env p = \<lparr>InputDirPath = ''/videos'', filepath_Join = (\<lambda>d n. d @ ''/'' @ n), ffprobe = p\<rparr>"

definition scenario_time :: Time where
  "scenario_time = \<lparr>year = 2023, month = 6, day = 1, hour = 10, minute = 0, second = 0,
                    nsec = 500000000\<rparr>"

definition scenario_fragment :: "string \<Rightarrow> int \<Rightarrow> string \<Rightarrow> VideoFragment" where
  "scenario_fragment n k new =
     \<lparr>Codec = ''h264'', CreationTime = Some scenario_time, Id = ''0042'', Index = k,
      Extension = ''mp4'', CurrentName = n, NewName = new\<rparr>"

definition scenario_whole :: "VideoFragment list \<Rightarrow> VideoWhole" where
  "scenario_whole fs =
     \<lparr>Codec = ''h264'', CreationTime = Some scenario_time, Id = ''0042'', Fragments = fs,
      Expected = 2, Name = ''Recording _-_ Date 2023-06-01 10_00_00 _-_ ID 0042.mkv''\<rparr>"

text \<open>The calls of \<^verbatim>\<open>os.Rename\<close> in a trace, and the paths logged as already renamed.\<close>

fun is_fs_action :: "event \<Rightarrow> bool" where
  "is_fs_action (Os_Rename old new) = True"
| "is_fs_action ev = False"

definition fs_actions :: "event list \<Rightarrow> event list" where
  "fs_actions evs = filter is_fs_action evs"

fun reported :: "event \<Rightarrow> string list" where
  "reported (Log_Already_Renamed p) = [p]"
| "reported ev = []"

definition already_renamed :: "event list \<Rightarrow> string list" where
  "already_renamed evs = concat (map reported evs)"

text \<open>A fragment of the scenario that already has its new name.\<close>

definition renamed_fragment :: VideoFragment where
  "renamed_fragment =
     scenario_fragment ''Recording _-_ Date 2023-06-01 10_00_00 _-_ ID 0042 _-_ Part 01.mp4'' 1
       ''Recording _-_ Date 2023-06-01 10_00_00 _-_ ID 0042 _-_ Part 01.mp4''"












section \<open>Runes and matching\<close>

lemma rune_extra_ascii: "ascii c \<Longrightarrow> rune_extra c cs = 0"
  by (simp add: rune_extra_def ascii_def)

lemma runes_ascii_Cons: "ascii c \<Longrightarrow> runes (c # cs) = [c] # runes cs"
  by (simp add: rune_extra_ascii)

lemma runes_ascii_append: "list_all ascii s \<Longrightarrow> runes (s @ t) = asc s @ runes t"
  by (induction s) (simp_all add: asc_def rune_extra_ascii)

lemma runes_ascii: "list_all ascii s \<Longrightarrow> runes s = asc s"
  using runes_ascii_append [of s "[]"] by simp

lemma concat_asc: "concat (asc s) = s"
  by (induction s) (simp_all add: asc_def)

lemma concat_runes: "concat (runes s) = s"
  by (induction s rule: runes.induct) simp_all

lemma asc_append: "asc (s @ t) = asc s @ asc t"
  by (simp add: asc_def)

lemma plus_splits_append: "(T, R) \<in> set (plus_splits a rs) \<Longrightarrow> T @ R = rs"
  by (induction rs arbitrary: T R) (auto split: if_splits)

lemma match_piece_append: "(T, R) \<in> set (match_piece p rs) \<Longrightarrow> T @ R = rs"
  by (cases p) (auto split: list.splits if_splits dest: plus_splits_append)

lemma match_pieces_append: "(T, R) \<in> set (match_pieces ps rs) \<Longrightarrow> T @ R = rs"
proof (induction ps arbitrary: T R rs)
  case Nil
  then show ?case by simp
next
  case (Cons p ps)
  then obtain T1 R1 T2 where "(T1, R1) \<in> set (match_piece p rs)"
    "(T2, R) \<in> set (match_pieces ps R1)" "T = T1 @ T2"
    by auto
  with Cons.IH [of T2 R R1] match_piece_append [of T1 R1 p rs] show ?case by simp
qed

lemma atom_ascii_ok: "atom_ascii a \<Longrightarrow> atom_ok a r \<Longrightarrow> \<exists>c. r = [c] \<and> ascii c"
proof (cases a)
  case (Class rs)
  assume a: "atom_ascii a" and ok: "atom_ok a r"
  from ok Class obtain c where r: "r = [c]"
    by (auto split: list.splits)
  from ok Class r obtain lo hi where "(lo, hi) \<in> set rs" "byte c \<le> byte hi"
    by (auto simp: list_ex_iff)
  with a Class have "ascii c"
    by (auto simp: list_all_iff ascii_def)
  with r show ?thesis by simp
qed auto

lemma plus_splits_ascii:
  "atom_ascii a \<Longrightarrow> (T, R) \<in> set (plus_splits a rs) \<Longrightarrow> \<exists>s. T = asc s \<and> list_all ascii s"
proof (induction rs arbitrary: T R)
  case Nil
  then show ?case by simp
next
  case (Cons r rs)
  from Cons.prems have ok: "atom_ok a r" by (auto split: if_splits)
  with Cons.prems(1) obtain c where c: "r = [c]" "ascii c" using atom_ascii_ok by blast
  from Cons.prems ok consider
    (more) T' where "T = r # T'" "(T', R) \<in> set (plus_splits a rs)" | (last) "T = [r]"
    by auto
  then show ?case
  proof cases
    case more
    with Cons.IH [OF Cons.prems(1)] obtain s where "T' = asc s" "list_all ascii s" by blast
    with more c have "T = asc (c # s) \<and> list_all ascii (c # s)" by (simp add: asc_def)
    then show ?thesis by blast
  next
    case last
    with c have "T = asc [c] \<and> list_all ascii [c]" by (simp add: asc_def)
    then show ?thesis by blast
  qed
qed

lemma all_ok_ascii:
  "atom_ascii a \<Longrightarrow> list_all (atom_ok a) T \<Longrightarrow> \<exists>s. T = asc s \<and> list_all ascii s"
proof (induction T)
  case Nil
  have "[] = asc [] \<and> list_all ascii []" by (simp add: asc_def)
  then show ?case by blast
next
  case (Cons r T)
  then obtain s where s: "T = asc s" "list_all ascii s" by auto
  from Cons.prems obtain c where "r = [c]" "ascii c" using atom_ascii_ok by fastforce
  with s have "r # T = asc (c # s) \<and> list_all ascii (c # s)" by (simp add: asc_def)
  then show ?case by blast
qed

lemma match_piece_ascii:
  assumes "atom_ascii (piece_atom p)" and "(T, R) \<in> set (match_piece p rs)"
  shows "\<exists>s. T = asc s \<and> list_all ascii s"
proof (cases p)
  case (One a)
  with assms obtain r where r: "T = [r]" "atom_ok a r"
    by (auto split: list.splits if_splits)
  with assms(1) One obtain c where "r = [c]" "ascii c" using atom_ascii_ok by fastforce
  with r have "T = asc [c] \<and> list_all ascii [c]" by (simp add: asc_def)
  then show ?thesis by blast
next
  case (Exactly a n)
  with assms have "list_all (atom_ok a) T" "atom_ascii a"
    by (auto split: if_splits)
  then show ?thesis using all_ok_ascii by blast
next
  case (Plus a)
  with assms show ?thesis using plus_splits_ascii by auto
qed

lemma match_pieces_ascii:
  "list_all (\<lambda>p. atom_ascii (piece_atom p)) ps \<Longrightarrow> (T, R) \<in> set (match_pieces ps rs)
   \<Longrightarrow> \<exists>s. T = asc s \<and> list_all ascii s"
proof (induction ps arbitrary: T R rs)
  case Nil
  then have "T = asc [] \<and> list_all ascii []" by (simp add: asc_def)
  then show ?case by blast
next
  case (Cons p ps)
  from Cons.prems(2) obtain T1 R1 T2 where m: "(T1, R1) \<in> set (match_piece p rs)"
    "(T2, R) \<in> set (match_pieces ps R1)" "T = T1 @ T2"
    by auto
  from Cons.prems(1) m(1) obtain s1 where s1: "T1 = asc s1" "list_all ascii s1"
    using match_piece_ascii by fastforce
  from Cons.IH [of T2 R R1] Cons.prems(1) m(2) obtain s2 where s2: "T2 = asc s2" "list_all ascii s2"
    by auto
  from m(3) s1 s2 have "T = asc (s1 @ s2) \<and> list_all ascii (s1 @ s2)" by (simp add: asc_def)
  then show ?case by blast
qed

lemma match_piece_fixed:
  assumes "fixed p" and "(T, R) \<in> set (match_piece p rs)"
  shows "match_piece p (T @ R') = [(T, R')]"
  using assms by (cases p) (auto split: list.splits if_splits)

lemma match_pieces_fixed:
  "list_all fixed ps \<Longrightarrow> (T, R) \<in> set (match_pieces ps rs) \<Longrightarrow> match_pieces ps (T @ R') = [(T, R')]"
proof (induction ps arbitrary: T R rs R')
  case Nil
  then show ?case by simp
next
  case (Cons p ps)
  from Cons.prems(2) obtain T1 R1 T2 where m: "(T1, R1) \<in> set (match_piece p rs)"
    "(T2, R) \<in> set (match_pieces ps R1)" "T = T1 @ T2"
    by auto
  from Cons.prems(1) m(1) have 1: "match_piece p (T1 @ (T2 @ R')) = [(T1, T2 @ R')]"
    using match_piece_fixed by simp
  from Cons.IH [of T2 R R1 R'] Cons.prems(1) m(2) have 2: "match_pieces ps (T2 @ R') = [(T2, R')]"
    by simp
  from 1 2 m(3) show ?case by simp
qed

lemma match_lits:
  "match_nodes (lits s @ ns) at0 (asc s @ rs) =
     map (\<lambda>(t, caps, r). (asc s @ t, caps, r)) (match_nodes ns (at0 \<and> s = []) rs)"
proof (induction s arbitrary: at0)
  case Nil
  then show ?case by (simp add: lits_def asc_def)
next
  case (Cons c s)
  have "match_nodes (lits (c # s) @ ns) at0 (asc (c # s) @ rs) =
        map (\<lambda>(t', caps, r'). ([c] # t', caps, r')) (match_nodes (lits s @ ns) False (asc s @ rs))"
    by (simp add: lits_def asc_def)
  also have "\<dots> = map (\<lambda>(t', caps, r'). ([c] # t', caps, r'))
                       (map (\<lambda>(t, caps, r). (asc s @ t, caps, r)) (match_nodes ns False rs))"
    using Cons.IH [of False] by simp
  also have "\<dots> = map (\<lambda>(t, caps, r). (asc (c # s) @ t, caps, r)) (match_nodes ns False rs)"
    by (simp add: asc_def split_def)
  finally show ?case by simp
qed

lemma match_lit_mismatch:
  "r \<noteq> [c] \<Longrightarrow> match_nodes (Piece (One (Lit c)) # ns) at0 (r # rs) = []"
  by simp

lemma match_capture_single:
  "match_pieces ps rs = [(T, R)] \<Longrightarrow>
   match_nodes (Capture ps # ns) at0 rs =
     map (\<lambda>(t', caps, r'). (T @ t', concat T # caps, r')) (match_nodes ns (at0 \<and> T = []) R)"
  by simp

lemma find_at_BeginText_later: "find_at (BeginText # ns) False rs = []"
  by (induction rs) simp_all

lemma find_at_BeginText:
  "find_at (BeginText # ns) True rs =
     (case match_nodes ns True rs of (t, caps, r) # _ \<Rightarrow> concat t # caps | [] \<Rightarrow> [])"
  by (cases rs) (simp_all add: find_at_BeginText_later split: list.splits)

lemma FindStringSubmatch_anchored:
  "FindStringSubmatch (BeginText # ns) s =
     (case match_nodes ns True (runes s) of (t, caps, r) # _ \<Rightarrow> concat t # caps | [] \<Rightarrow> [])"
  by (simp add: FindStringSubmatch_def find_at_BeginText)

lemma match_pieces_Plus: "match_pieces [Plus a] rs = plus_splits a rs"
  by (induction rs) (simp_all add: split_def)

lemma plus_splits_whole:
  "concat (map (\<lambda>(t, r). if r = [] then [g t] else []) (plus_splits a rs)) =
     (if rs \<noteq> [] \<and> list_all (atom_ok a) rs then [g rs] else [])"
proof (induction rs arbitrary: g)
  case Nil
  then show ?case by simp
next
  case (Cons r rs)
  show ?case
  proof (cases "atom_ok a r")
    case False
    then show ?thesis by simp
  next
    case True
    have "concat (map (\<lambda>(t, u). if u = [] then [g t] else []) (plus_splits a (r # rs))) =
          concat (map (\<lambda>(t, u). if u = [] then [g (r # t)] else []) (plus_splits a rs))
          @ (if rs = [] then [g [r]] else [])"
      using True by (simp add: split_def o_def cong: if_cong)
    also have "\<dots> = (if rs \<noteq> [] \<and> list_all (atom_ok a) rs then [g (r # rs)] else [])
                     @ (if rs = [] then [g [r]] else [])"
      by (simp add: Cons.IH [of "\<lambda>t. g (r # t)"])
    also have "\<dots> = (if r # rs \<noteq> [] \<and> list_all (atom_ok a) (r # rs) then [g (r # rs)] else [])"
      using True by simp
    finally show ?thesis .
  qed
qed

lemma match_tail:
  "match_nodes [Capture [Plus a], EndText] at0 rs =
     (if rs \<noteq> [] \<and> list_all (atom_ok a) rs then [(rs, [concat rs], [])] else [])"
proof -
  have "match_nodes [Capture [Plus a], EndText] at0 rs =
        concat (map (\<lambda>(t, r). if r = [] then [(t, [concat t], [])] else []) (plus_splits a rs))"
    unfolding match_nodes.simps match_pieces_Plus
    by (rule arg_cong [where f = concat]) (auto simp: split_def)
  then show ?thesis by (simp add: plus_splits_whole)
qed

lemma plus_splits_ok: "(T, R) \<in> set (plus_splits a rs) \<Longrightarrow> T \<noteq> [] \<and> list_all (atom_ok a) T"
  by (induction rs arbitrary: T R) (auto split: if_splits)

lemma match_nodes_append: "(t, caps, r) \<in> set (match_nodes ns at0 rs) \<Longrightarrow> t @ r = rs"
proof (induction ns at0 rs arbitrary: t caps r rule: match_nodes.induct)
  case (4 p ns at0 rs)
  from "4.prems" obtain T R t' where m: "(T, R) \<in> set (match_piece p rs)"
    "(t', caps, r) \<in> set (match_nodes ns (at0 \<and> T = []) R)" "t = T @ t'"
    by auto
  from "4.IH" [OF m(1) refl m(2)] match_piece_append [OF m(1)] m(3) show ?case by simp
next
  case (5 ps ns at0 rs)
  from "5.prems" obtain T R t' caps' where m: "(T, R) \<in> set (match_pieces ps rs)"
    "(t', caps', r) \<in> set (match_nodes ns (at0 \<and> T = []) R)" "t = T @ t'"
    by auto
  from "5.IH" [OF m(1) refl m(2)] match_pieces_append [OF m(1)] m(3) show ?case by simp
next
  case (2 ns at0 rs)
  from "2.prems" have a: "at0" by (simp split: if_splits)
  with "2.prems" have "(t, caps, r) \<in> set (match_nodes ns at0 rs)" by simp
  with a show ?case using "2.IH" by blast
next
  case (3 ns at0 rs)
  from "3.prems" have a: "rs = []" by (simp split: if_splits)
  with "3.prems" have "(t, caps, r) \<in> set (match_nodes ns at0 rs)" by simp
  with a show ?case using "3.IH" by blast
qed simp

lemma match_nodes_groups:
  "(t, caps, r) \<in> set (match_nodes ns at0 rs) \<Longrightarrow> list_all2 captured (groups ns) caps"
proof (induction ns at0 rs arbitrary: t caps r rule: match_nodes.induct)
  case (4 p ns at0 rs)
  from "4.prems" obtain T R t' where m: "(T, R) \<in> set (match_piece p rs)"
    "(t', caps, r) \<in> set (match_nodes ns (at0 \<and> T = []) R)"
    by auto
  from "4.IH" [OF m(1) refl m(2)] show ?case by simp
next
  case (5 ps ns at0 rs)
  from "5.prems" obtain T R t' caps' where m: "(T, R) \<in> set (match_pieces ps rs)"
    "(t', caps', r) \<in> set (match_nodes ns (at0 \<and> T = []) R)" "caps = concat T # caps'"
    by auto
  from m(1) have "captured ps (concat T)" unfolding captured_def by blast
  with "5.IH" [OF m(1) refl m(2)] m(3) show ?case by simp
next
  case (2 ns at0 rs)
  from "2.prems" have a: "at0" by (simp split: if_splits)
  with "2.prems" have "(t, caps, r) \<in> set (match_nodes ns at0 rs)" by simp
  with a show ?case using "2.IH" by simp
next
  case (3 ns at0 rs)
  from "3.prems" have a: "rs = []" by (simp split: if_splits)
  with "3.prems" have "(t, caps, r) \<in> set (match_nodes ns at0 rs)" by simp
  with a show ?case using "3.IH" by simp
qed simp

lemma match_nodes_EndText:
  "(t, caps, r) \<in> set (match_nodes (ns @ [EndText]) at0 rs) \<Longrightarrow> r = []"
proof (induction ns arbitrary: t caps r at0 rs)
  case Nil
  then show ?case by (auto split: if_splits)
next
  case (Cons n ns)
  show ?case
  proof (cases n)
    case BeginText
    with Cons show ?thesis by (auto split: if_splits)
  next
    case EndText
    with Cons show ?thesis by (auto split: if_splits)
  next
    case (Piece p)
    with Cons.prems obtain b' R t' where "(t', caps, r) \<in> set (match_nodes (ns @ [EndText]) b' R)"
      by auto
    with Cons.IH show ?thesis by blast
  next
    case (Capture ps)
    with Cons.prems obtain b' R t' caps' where "(t', caps', r) \<in> set (match_nodes (ns @ [EndText]) b' R)"
      by auto
    with Cons.IH show ?thesis by blast
  qed
qed

lemma groups_append: "groups (ns @ ms) = groups ns @ groups ms"
  by (induction ns rule: groups.induct) simp_all

text \<open>The result of a search with a pattern anchored at both ends.\<close>

lemma FindStringSubmatch_shape:
  assumes "FindStringSubmatch (BeginText # ns @ [EndText]) s \<noteq> []"
  shows "\<exists>caps. FindStringSubmatch (BeginText # ns @ [EndText]) s = s # caps
                \<and> list_all2 captured (groups ns) caps"
proof -
  let ?c = "match_nodes (ns @ [EndText]) True (runes s)"
  from assms obtain t caps r rest where c: "?c = (t, caps, r) # rest"
    by (auto simp: FindStringSubmatch_anchored split: list.splits)
  then have mem: "(t, caps, r) \<in> set ?c" by simp
  from match_nodes_EndText [OF mem] match_nodes_append [OF mem] have "t = runes s" by simp
  then have "concat t = s" by (simp add: concat_runes)
  moreover from match_nodes_groups [OF mem] have "list_all2 captured (groups ns) caps"
    by (simp add: groups_append)
  ultimately show ?thesis using c by (simp add: FindStringSubmatch_anchored)
qed

section \<open>The compiled matchers\<close>

lemma digit_char_simps:
  "digit_char 0 = CHR ''0''" "digit_char 1 = CHR ''1''" "digit_char (Suc 0) = CHR ''1''"
  "digit_char 2 = CHR ''2''" "digit_char 3 = CHR ''3''" "digit_char 4 = CHR ''4''"
  "digit_char 5 = CHR ''5''" "digit_char 6 = CHR ''6''" "digit_char 7 = CHR ''7''"
  "digit_char 8 = CHR ''8''" "digit_char 9 = CHR ''9''"
  by code_simp+

lemmas char_defs = is_digit_def is_alnum_def is_meta_def ascii_def between_def byte_def digit_val_def

lemmas fmt_defs = Sprintf_def directive_def

lemmas compile_defs = compile_def matcher_lit_def tokenCodec_def tokenIndex_def tokenId_def
  tokenExtension_def tokenDate_def regexp_Compile_def parse_nodes.simps parse_group.simps
  parse_piece_def

lemmas re_defs = raw_body_def renamed_body_def merged_body_def tail_nodes_def date_ps_def
  digit_cls_def alnum_cls_def codec_cls_def lits_def

lemma Raw_compiled:
  "\<exists>m. Raw = Some m \<and> Regex m = Some (BeginText # raw_body @ [EndText])
       \<and> Layout m = ''G%s%02d%s.%s'' \<and> length (Slice (Tokens m)) = 4"
  by (simp add: Raw_def compile_defs char_defs fmt_defs re_defs)

lemma Renamed_compiled:
  "\<exists>m. Renamed = Some m \<and> Regex m = Some (BeginText # renamed_body @ [EndText])
       \<and> Layout m = ''Recording _-_ Date %s _-_ ID %s _-_ Part %02d.%s''
       \<and> length (Slice (Tokens m)) = 4
       \<and> map_option token.Index (Map (Tokens m) ''index'') = Some 2
       \<and> map_option token.Index (Map (Tokens m) ''id'') = Some 1
       \<and> map_option token.Index (Map (Tokens m) ''extension'') = Some 3"
  by (simp add: Renamed_def compile_defs char_defs fmt_defs re_defs)

lemma Merged_compiled:
  "\<exists>m. Merged = Some m \<and> Regex m = Some (BeginText # merged_body @ [EndText])
       \<and> Layout m = ''Recording _-_ Date %s _-_ ID %s.%s''
       \<and> length (Slice (Tokens m)) = 3"
  by (simp add: Merged_def compile_defs char_defs fmt_defs re_defs)

section \<open>Rendering and matching with the package matchers\<close>

lemma Sprintf_Renamed:
  "Sprintf ''Recording _-_ Date %s _-_ ID %s _-_ Part %02d.%s'' [S a, S b, D i, S c] =
     Some (''Recording _-_ Date '' @ a @ '' _-_ ID '' @ b @ '' _-_ Part '' @ fmt_d True (Some 2) i @ ''.'' @ c)"
  by (simp add: fmt_defs char_defs)

lemma Sprintf_Merged:
  "Sprintf ''Recording _-_ Date %s _-_ ID %s.%s'' [S a, S b, S c] =
     Some (''Recording _-_ Date '' @ a @ '' _-_ ID '' @ b @ ''.'' @ c)"
  by (simp add: fmt_defs char_defs)

lemma Sprintf_Raw:
  "Sprintf ''G%s%02d%s.%s'' [S a, D i, S b, S c] =
     Some (''G'' @ a @ fmt_d True (Some 2) i @ b @ ''.'' @ c)"
  by (simp add: fmt_defs char_defs)

lemma matches_of_Raw: "matches_of Raw s = FindStringSubmatch (BeginText # raw_body @ [EndText]) s"
proof -
  from Raw_compiled obtain m where m: "Raw = Some m" "Regex m = Some (BeginText # raw_body @ [EndText])"
    by blast
  show ?thesis unfolding matches_of_def m(1) using m(2) by simp
qed

lemma matches_of_Renamed:
  "matches_of Renamed s = FindStringSubmatch (BeginText # renamed_body @ [EndText]) s"
proof -
  from Renamed_compiled obtain m where m: "Renamed = Some m" "Regex m = Some (BeginText # renamed_body @ [EndText])"
    by blast
  show ?thesis unfolding matches_of_def m(1) using m(2) by simp
qed

lemma matches_of_Merged:
  "matches_of Merged s = FindStringSubmatch (BeginText # merged_body @ [EndText]) s"
proof -
  from Merged_compiled obtain m where m: "Merged = Some m" "Regex m = Some (BeginText # merged_body @ [EndText])"
    by blast
  show ?thesis unfolding matches_of_def m(1) using m(2) by simp
qed

lemma render_Renamed:
  "render Renamed [S a, S b, D i, S c] =
     Some (''Recording _-_ Date '' @ a @ '' _-_ ID '' @ b @ '' _-_ Part '' @ fmt_d True (Some 2) i @ ''.'' @ c)"
proof -
  from Renamed_compiled obtain m where m: "Renamed = Some m" "Layout m = ''Recording _-_ Date %s _-_ ID %s _-_ Part %02d.%s''"
    by blast
  show ?thesis unfolding render_def m(1) using m(2) by (simp add: Sprintf_Renamed)
qed

lemma render_Merged:
  "render Merged [S a, S b, S c] =
     Some (''Recording _-_ Date '' @ a @ '' _-_ ID '' @ b @ ''.'' @ c)"
proof -
  from Merged_compiled obtain m where m: "Merged = Some m" "Layout m = ''Recording _-_ Date %s _-_ ID %s.%s''"
    by blast
  show ?thesis unfolding render_def m(1) using m(2) by (simp add: Sprintf_Merged)
qed

lemma render_Raw:
  "render Raw [S a, D i, S b, S c] = Some (''G'' @ a @ fmt_d True (Some 2) i @ b @ ''.'' @ c)"
proof -
  from Raw_compiled obtain m where m: "Raw = Some m" "Layout m = ''G%s%02d%s.%s''"
    by blast
  show ?thesis unfolding render_def m(1) using m(2) by (simp add: Sprintf_Raw)
qed

lemma atom_ok_digit: "atom_ok digit_cls r \<longleftrightarrow> (\<exists>c. r = [c] \<and> is_digit c)"
  by (cases r) (auto simp: digit_cls_def char_defs split: list.splits)

lemma all_digit_concat:
  "list_all (atom_ok digit_cls) T \<Longrightarrow> length (concat T) = length T \<and> list_all is_digit (concat T)"
  by (induction T) (auto simp: atom_ok_digit)

lemma captured_digits:
  assumes "captured [Exactly digit_cls n] x"
  shows "length x = n \<and> list_all is_digit x"
proof -
  from assms obtain T R rs where "(T, R) \<in> set (match_pieces [Exactly digit_cls n] rs)" "x = concat T"
    unfolding captured_def by blast
  then have "length T = n" "list_all (atom_ok digit_cls) T" "x = concat T"
    by (auto split: if_splits)
  with all_digit_concat [of T] show ?thesis by simp
qed

lemma is_digit_not_sign: "is_digit c \<Longrightarrow> c \<noteq> CHR ''-'' \<and> c \<noteq> CHR ''+''"
  by (auto simp: char_defs)

lemma digit_val_le: "is_digit c \<Longrightarrow> digit_val c \<le> 9"
  by (auto simp: char_defs)

lemma Atoi_two_digits:
  assumes "length x = 2" "list_all is_digit x"
  shows "Atoi x = Some (int (number x)) \<and> number x \<le> 99"
proof -
  from assms obtain a b where x: "x = [a, b]" "is_digit a" "is_digit b"
    by (cases x; cases "tl x") auto
  from x digit_val_le [of a] digit_val_le [of b]
  have "10 * digit_val a + digit_val b \<le> 99" by simp
  with x is_digit_not_sign [of a] show ?thesis
    by (simp add: Atoi_def number_def)
qed

lemma groups_lits [simp]: "groups (lits s) = []"
  by (induction s) (simp_all add: lits_def)

lemma groups_raw_body:
  "groups raw_body = [[One codec_cls], [Exactly digit_cls 2], [Exactly digit_cls 4], [Plus alnum_cls]]"
  by (simp add: raw_body_def tail_nodes_def groups_append)

lemma groups_renamed_body:
  "groups renamed_body = [date_ps, [Exactly digit_cls 4], [Exactly digit_cls 2], [Plus alnum_cls]]"
  by (simp add: renamed_body_def tail_nodes_def groups_append)

lemma groups_merged_body:
  "groups merged_body = [date_ps, [Exactly digit_cls 4], [Plus alnum_cls]]"
  by (simp add: merged_body_def tail_nodes_def groups_append)

lemma list_all2_4: "list_all2 P [a, b, c, d] ys \<Longrightarrow> \<exists>w x y z. ys = [w, x, y, z] \<and> P a w \<and> P b x \<and> P c y \<and> P d z"
  by (auto simp: list_all2_Cons1)

lemma list_all2_3: "list_all2 P [a, b, c] ys \<Longrightarrow> \<exists>w x y. ys = [w, x, y] \<and> P a w \<and> P b x \<and> P c y"
  by (auto simp: list_all2_Cons1)

text \<open>What each name parser returns, by whether its pattern matches the name.\<close>

lemma matches_of_Raw_shape:
  assumes "matches_of Raw s \<noteq> []"
  shows "\<exists>c x i e. matches_of Raw s = [s, c, x, i, e] \<and> captured [One codec_cls] c
           \<and> captured [Exactly digit_cls 2] x \<and> captured [Exactly digit_cls 4] i
           \<and> captured [Plus alnum_cls] e"
proof -
  from assms FindStringSubmatch_shape [of raw_body s] obtain caps where
    "matches_of Raw s = s # caps" "list_all2 captured (groups raw_body) caps"
    by (auto simp: matches_of_Raw)
  then show ?thesis by (auto simp: groups_raw_body dest!: list_all2_4)
qed

lemma matches_of_Renamed_shape:
  assumes "matches_of Renamed s \<noteq> []"
  shows "\<exists>d i x e. matches_of Renamed s = [s, d, i, x, e] \<and> captured date_ps d
           \<and> captured [Exactly digit_cls 4] i \<and> captured [Exactly digit_cls 2] x
           \<and> captured [Plus alnum_cls] e"
proof -
  from assms FindStringSubmatch_shape [of renamed_body s] obtain caps where
    "matches_of Renamed s = s # caps" "list_all2 captured (groups renamed_body) caps"
    by (auto simp: matches_of_Renamed)
  then show ?thesis by (auto simp: groups_renamed_body dest!: list_all2_4)
qed

lemma matches_of_Merged_shape:
  assumes "matches_of Merged s \<noteq> []"
  shows "\<exists>d i e. matches_of Merged s = [s, d, i, e] \<and> captured date_ps d
           \<and> captured [Exactly digit_cls 4] i \<and> captured [Plus alnum_cls] e"
proof -
  from assms FindStringSubmatch_shape [of merged_body s] obtain caps where
    "matches_of Merged s = s # caps" "list_all2 captured (groups merged_body) caps"
    by (auto simp: matches_of_Merged)
  then show ?thesis by (auto simp: groups_merged_body dest!: list_all2_3)
qed

section \<open>The name parsers and Parse\<close>

lemma parseRaw_no_match:
  assumes "matches_of Raw (CurrentName vf) = []"
  shows "parseRaw vf = Failed CannotParseRaw"
proof -
  from Raw_compiled obtain m where m: "Raw = Some m"
    "Regex m = Some (BeginText # raw_body @ [EndText])" "length (Slice (Tokens m)) = 4"
    by blast
  from assms have "FindStringSubmatch (BeginText # raw_body @ [EndText]) (CurrentName vf) = []"
    by (simp add: matches_of_Raw)
  then show ?thesis unfolding parseRaw_def m(1) using m(2,3) by (simp add: must_def)
qed

lemma parseRaw_match:
  assumes "matches_of Raw (CurrentName vf) = [w, c, x, i, ex]" and "Atoi x = Some k"
  shows "parseRaw vf = Returned (vf\<lparr>Id := i, Index := k, Extension := ex\<rparr>)"
proof -
  from Raw_compiled obtain m where m: "Raw = Some m"
    "Regex m = Some (BeginText # raw_body @ [EndText])" "length (Slice (Tokens m)) = 4"
    by blast
  from assms have "FindStringSubmatch (BeginText # raw_body @ [EndText]) (CurrentName vf) = [w, c, x, i, ex]"
    by (simp add: matches_of_Raw)
  then show ?thesis unfolding parseRaw_def m(1) using m(2,3) assms(2)
    by (simp add: must_def index_def)
qed

lemma parseRenamed_no_match:
  assumes "matches_of Renamed (CurrentName vf) = []"
  shows "parseRenamed vf = Failed CannotParsePretty"
proof -
  from Renamed_compiled obtain m where m: "Renamed = Some m"
    "Regex m = Some (BeginText # renamed_body @ [EndText])" "length (Slice (Tokens m)) = 4"
    by blast
  from assms have "FindStringSubmatch (BeginText # renamed_body @ [EndText]) (CurrentName vf) = []"
    by (simp add: matches_of_Renamed)
  then show ?thesis unfolding parseRenamed_def m(1) using m(2,3) by (simp add: must_def)
qed

lemma parseRenamed_match:
  assumes "matches_of Renamed (CurrentName vf) = [w, d, i, x, ex]" and "Atoi x = Some k"
  shows "parseRenamed vf = Returned (vf\<lparr>Id := i, Index := k, Extension := ex\<rparr>)"
proof -
  from Renamed_compiled obtain m ti tid te where m: "Renamed = Some m"
    "Regex m = Some (BeginText # renamed_body @ [EndText])" "length (Slice (Tokens m)) = 4"
    "Map (Tokens m) ''index'' = Some ti" "token.Index ti = 2"
    "Map (Tokens m) ''id'' = Some tid" "token.Index tid = 1"
    "Map (Tokens m) ''extension'' = Some te" "token.Index te = 3"
    by auto
  from assms have "FindStringSubmatch (BeginText # renamed_body @ [EndText]) (CurrentName vf) = [w, d, i, x, ex]"
    by (simp add: matches_of_Renamed)
  then show ?thesis unfolding parseRenamed_def m(1) using m(2-) assms(2)
    by (simp add: must_def index_def)
qed

lemma parseMerged_no_match:
  assumes "matches_of Merged (CurrentName vf) = []"
  shows "parseMerged vf = Failed CannotParseMerged"
proof -
  from Merged_compiled obtain m where m: "Merged = Some m"
    "Regex m = Some (BeginText # merged_body @ [EndText])" "length (Slice (Tokens m)) = 3"
    by blast
  from assms have "FindStringSubmatch (BeginText # merged_body @ [EndText]) (CurrentName vf) = []"
    by (simp add: matches_of_Merged)
  then show ?thesis unfolding parseMerged_def m(1) using m(2,3) by (simp add: must_def)
qed

lemma parseMerged_match:
  assumes "matches_of Merged (CurrentName vf) = [w, d, i, ex]"
  shows "parseMerged vf = Returned (vf\<lparr>Id := i, Extension := ex\<rparr>)"
proof -
  from Merged_compiled obtain m where m: "Merged = Some m"
    "Regex m = Some (BeginText # merged_body @ [EndText])" "length (Slice (Tokens m)) = 3"
    by blast
  from assms have "FindStringSubmatch (BeginText # merged_body @ [EndText]) (CurrentName vf) = [w, d, i, ex]"
    by (simp add: matches_of_Merged)
  then show ?thesis unfolding parseMerged_def m(1) using m(2,3)
    by (simp add: must_def index_def)
qed

text \<open>The fragment a matching parser returns, read off the submatches as the source
  indexes them.\<close>

lemma parseRenamed_matching:
  assumes "matches_of Renamed (CurrentName vf) \<noteq> []"
  shows "parseRenamed vf =
           Returned (vf\<lparr>Id := matches_of Renamed (CurrentName vf) ! 2,
                         Index := int (number (matches_of Renamed (CurrentName vf) ! 3)),
                         Extension := matches_of Renamed (CurrentName vf) ! 4\<rparr>)"
proof -
  from matches_of_Renamed_shape [OF assms] obtain d i x ex where
    ms: "matches_of Renamed (CurrentName vf) = [CurrentName vf, d, i, x, ex]"
    and x: "captured [Exactly digit_cls 2] x"
    by blast
  from captured_digits [OF x] Atoi_two_digits [of x] have "Atoi x = Some (int (number x))" by simp
  from parseRenamed_match [OF ms this] ms show ?thesis by simp
qed

lemma parseRaw_matching:
  assumes "matches_of Raw (CurrentName vf) \<noteq> []"
  shows "parseRaw vf =
           Returned (vf\<lparr>Id := matches_of Raw (CurrentName vf) ! 3,
                         Index := int (number (matches_of Raw (CurrentName vf) ! 2)),
                         Extension := matches_of Raw (CurrentName vf) ! 4\<rparr>)"
proof -
  from matches_of_Raw_shape [OF assms] obtain c x i ex where
    ms: "matches_of Raw (CurrentName vf) = [CurrentName vf, c, x, i, ex]"
    and x: "captured [Exactly digit_cls 2] x"
    by blast
  from captured_digits [OF x] Atoi_two_digits [of x] have "Atoi x = Some (int (number x))" by simp
  from parseRaw_match [OF ms this] ms show ?thesis by simp
qed

lemma parseMerged_matching:
  assumes "matches_of Merged (CurrentName vf) \<noteq> []"
  shows "parseMerged vf =
           Returned (vf\<lparr>Id := matches_of Merged (CurrentName vf) ! 2,
                         Extension := matches_of Merged (CurrentName vf) ! 3\<rparr>)"
proof -
  from matches_of_Merged_shape [OF assms] obtain d i ex where
    ms: "matches_of Merged (CurrentName vf) = [CurrentName vf, d, i, ex]"
    by blast
  from parseMerged_match [OF ms] ms show ?thesis by simp
qed

text \<open>
  Claim C8. For every file name, \<open>Parse\<close> tries the renamed matcher, then the raw
  matcher, then the merged matcher, and goes on with the fields of the first one
  whose pattern matches the whole name (reading the probe and formatting the new
  name in \<open>finish\<close>); when none matches it fails with the error "name not
  parseable".
\<close>

theorem Parse_priority:
  "Parse e vf =
     (let renamed = matches_of Renamed (CurrentName vf);
          raw = matches_of Raw (CurrentName vf);
          merged = matches_of Merged (CurrentName vf)
      in if renamed \<noteq> [] then
           finish e (vf\<lparr>Id := renamed ! 2, Index := int (number (renamed ! 3)),
                          Extension := renamed ! 4\<rparr>)
         else if raw \<noteq> [] then
           finish e (vf\<lparr>Id := raw ! 3, Index := int (number (raw ! 2)), Extension := raw ! 4\<rparr>)
         else if merged \<noteq> [] then
           finish e (vf\<lparr>Id := merged ! 2, Extension := merged ! 3\<rparr>)
         else Failed NameNotParseable)"
proof (cases "matches_of Renamed (CurrentName vf) \<noteq> []")
  case True
  then show ?thesis by (simp add: Parse_def parseRenamed_matching Let_def)
next
  case r: False
  show ?thesis
  proof (cases "matches_of Raw (CurrentName vf) \<noteq> []")
    case True
    with r show ?thesis
      by (simp add: Parse_def parseRenamed_no_match parseRaw_matching Let_def)
  next
    case w: False
    show ?thesis
    proof (cases "matches_of Merged (CurrentName vf) \<noteq> []")
      case True
      with r w show ?thesis
        by (simp add: Parse_def parseRenamed_no_match parseRaw_no_match parseMerged_matching Let_def)
    next
      case False
      with r w show ?thesis
        by (simp add: Parse_def parseRenamed_no_match parseRaw_no_match parseMerged_no_match)
    qed
  qed
qed

section \<open>The raw pattern\<close>

lemmas eval_match = FindStringSubmatch_def re_defs char_defs rune_extra_def

text \<open>
  Claim C4 (the code departs from it). The pattern of the raw matcher is built from
  the template \<^verbatim>\<open>G%s%s%s.%s\<close> without quoting its period, so the position between
  the id and the extension accepts any character but a newline:
  \<^verbatim>\<open>GX010042xmp4\<close> is parsed as a raw name with id 0042, index 1 and extension mp4.
\<close>

theorem raw_accepts_any_separator:
  "matches_of Raw ''GX010042xmp4'' = [''GX010042xmp4'', ''X'', ''01'', ''0042'', ''mp4'']
   \<and> parseRaw (fragment_lit ''GX010042xmp4'') =
       Returned ((fragment_lit ''GX010042xmp4'')\<lparr>Id := ''0042'', Index := 1, Extension := ''mp4''\<rparr>)"
proof -
  have ms: "matches_of Raw ''GX010042xmp4'' = [''GX010042xmp4'', ''X'', ''01'', ''0042'', ''mp4'']"
    unfolding matches_of_Raw by (simp add: eval_match)
  have "Atoi ''01'' = Some 1"
    by (simp add: Atoi_def number_def char_defs)
  with ms have "parseRaw (fragment_lit ''GX010042xmp4'') =
       Returned ((fragment_lit ''GX010042xmp4'')\<lparr>Id := ''0042'', Index := 1, Extension := ''mp4''\<rparr>)"
    by (intro parseRaw_match [where w = "''GX010042xmp4''" and c = "''X''" and x = "''01''"])
       (simp_all add: fragment_lit_def)
  with ms show ?thesis by simp
qed

lemma match_raw_not_G:
  assumes "ascii c" "c \<noteq> CHR ''G''"
  shows "matches_of Raw (c # s) = []"
proof -
  have "match_nodes (raw_body @ [EndText]) True (runes (c # s)) = []"
    using assms by (simp add: raw_body_def lits_def runes_ascii_Cons)
  then show ?thesis by (simp add: matches_of_Raw FindStringSubmatch_anchored)
qed

text \<open>
  Claim C9. A file name rendered with the layout of the renamed matcher is never
  matched by the pattern of the raw matcher. This holds for all values, valid for
  the token grammars or not: the rendered name begins with \<^verbatim>\<open>R\<close>, the raw pattern
  with \<^verbatim>\<open>G\<close>.
\<close>

theorem renamed_render_not_raw:
  "\<exists>n. render Renamed [S date, S ident, D idx, S ext] = Some n \<and> matches_of Raw n = []"
proof -
  have "matches_of Raw (CHR ''R'' # s) = []" for s
    by (rule match_raw_not_G) (simp_all add: ascii_def byte_def)
  then show ?thesis by (simp add: render_Renamed)
qed

section \<open>Values valid for a token\<close>

lemma anchored_group:
  assumes "FindStringSubmatch [BeginText, Capture ps, EndText] v \<noteq> []"
  shows "(runes v, []) \<in> set (match_pieces ps (runes v))"
proof -
  from assms obtain t caps r rest where
    c: "match_nodes [Capture ps, EndText] True (runes v) = (t, caps, r) # rest"
    by (auto simp: FindStringSubmatch_anchored split: list.splits)
  then have "(t, caps, r) \<in> set (match_nodes [Capture ps, EndText] True (runes v))" by simp
  then obtain T R where m: "(T, R) \<in> set (match_pieces ps (runes v))" "R = []"
    by (auto split: if_splits)
  with match_pieces_append [OF m(1)] show ?thesis by simp
qed

lemma anchored_group_ascii:
  assumes "FindStringSubmatch [BeginText, Capture ps, EndText] v \<noteq> []"
    and "list_all (\<lambda>p. atom_ascii (piece_atom p)) ps"
  shows "list_all ascii v \<and> (asc v, []) \<in> set (match_pieces ps (asc v))"
proof -
  from anchored_group [OF assms(1)] have m: "(runes v, []) \<in> set (match_pieces ps (runes v))" .
  from match_pieces_ascii [OF assms(2) m] obtain s where s: "runes v = asc s" "list_all ascii s"
    by blast
  then have "concat (runes v) = s" by (simp add: concat_asc)
  then have "v = s" by (simp add: concat_runes)
  with s m show ?thesis by simp
qed

lemma anchored_group_fixed:
  assumes "FindStringSubmatch [BeginText, Capture ps, EndText] v \<noteq> []"
    and "list_all (\<lambda>p. atom_ascii (piece_atom p)) ps" and "list_all fixed ps"
  shows "list_all ascii v \<and> (\<forall>R. match_pieces ps (asc v @ R) = [(asc v, R)])"
  using anchored_group_ascii [OF assms(1,2)] match_pieces_fixed [OF assms(3)] by blast

lemma compile_group_Id:
  "regexp_Compile (''^('' @ captureGroup tokenId @ '')$'') = Some [BeginText, Capture [Exactly digit_cls 4], EndText]"
  by (simp add: compile_defs char_defs re_defs)

lemma compile_group_Index:
  "regexp_Compile (''^('' @ captureGroup tokenIndex @ '')$'') = Some [BeginText, Capture [Exactly digit_cls 2], EndText]"
  by (simp add: compile_defs char_defs re_defs)

lemma compile_group_Codec:
  "regexp_Compile (''^('' @ captureGroup tokenCodec @ '')$'') = Some [BeginText, Capture [One codec_cls], EndText]"
  by (simp add: compile_defs char_defs re_defs)

lemma compile_group_Date:
  "regexp_Compile (''^('' @ captureGroup tokenDate @ '')$'') = Some [BeginText, Capture date_ps, EndText]"
  by (simp add: compile_defs char_defs re_defs)

lemma compile_group_Extension:
  "regexp_Compile (''^('' @ captureGroup tokenExtension @ '')$'') = Some [BeginText, Capture [Plus alnum_cls], EndText]"
  by (simp add: compile_defs char_defs re_defs)

lemma ascii_classes:
  "atom_ascii digit_cls" "atom_ascii alnum_cls" "atom_ascii codec_cls"
  by (simp_all add: digit_cls_def alnum_cls_def codec_cls_def char_defs)

lemma valid_Id:
  "valid_for tokenId v \<Longrightarrow>
     list_all ascii v \<and> (\<forall>R. match_pieces [Exactly digit_cls 4] (asc v @ R) = [(asc v, R)])"
  unfolding valid_for_def compile_group_Id
  by (rule anchored_group_fixed) (simp_all add: ascii_classes)

lemma valid_Index:
  "valid_for tokenIndex v \<Longrightarrow>
     list_all ascii v \<and> (\<forall>R. match_pieces [Exactly digit_cls 2] (asc v @ R) = [(asc v, R)])"
  unfolding valid_for_def compile_group_Index
  by (rule anchored_group_fixed) (simp_all add: ascii_classes)

lemma valid_Codec:
  "valid_for tokenCodec v \<Longrightarrow>
     list_all ascii v \<and> (\<forall>R. match_pieces [One codec_cls] (asc v @ R) = [(asc v, R)])"
  unfolding valid_for_def compile_group_Codec
  by (rule anchored_group_fixed) (simp_all add: ascii_classes)

lemma valid_Date:
  "valid_for tokenDate v \<Longrightarrow>
     list_all ascii v \<and> (\<forall>R. match_pieces date_ps (asc v @ R) = [(asc v, R)])"
  unfolding valid_for_def compile_group_Date
  by (rule anchored_group_fixed) (simp_all add: date_ps_def ascii_classes ascii_def byte_def)

lemma valid_Extension:
  assumes "valid_for tokenExtension v"
  shows "list_all ascii v \<and> v \<noteq> [] \<and> list_all (atom_ok alnum_cls) (asc v)"
proof -
  from assms have f: "FindStringSubmatch [BeginText, Capture [Plus alnum_cls], EndText] v \<noteq> []"
    unfolding valid_for_def compile_group_Extension by simp
  from anchored_group_ascii [OF f] have a: "list_all ascii v"
    and m: "(asc v, []) \<in> set (match_pieces [Plus alnum_cls] (asc v))"
    by (simp_all add: ascii_classes)
  from m plus_splits_ok [of "asc v" "[]" alnum_cls "asc v"]
  have "asc v \<noteq> []" "list_all (atom_ok alnum_cls) (asc v)"
    by (simp_all add: match_pieces_Plus)
  with a show ?thesis by (auto simp: asc_def)
qed

lemma digit_char_props: "d < 10 \<Longrightarrow> is_digit (digit_char d) \<and> digit_val (digit_char d) = d"
  by (simp add: digit_char_def char_defs)

lemma number_snoc: "number (xs @ [c]) = 10 * number xs + digit_val c"
  by (simp add: number_def)

lemma number_digits: "number (digits n) = n"
proof (induction n rule: digits.induct)
  case (1 n)
  show ?case
  proof (cases "n < 10")
    case True
    then show ?thesis by (simp add: digits.simps [of n] number_def digit_char_props)
  next
    case False
    with 1 have "number (digits (n div 10)) = n div 10" by simp
    with False show ?thesis
      by (simp add: digits.simps [of n] number_snoc digit_char_props)
  qed
qed

lemma digits_all: "list_all is_digit (digits n)"
proof (induction n rule: digits.induct)
  case (1 n)
  then show ?case by (cases "n < 10") (simp_all add: digits.simps [of n] digit_char_props)
qed

lemma digits_nonempty: "digits n \<noteq> []"
  by (simp add: digits.simps [of n])

lemma number_zeros: "number (replicate z (CHR ''0'') @ ds) = number ds"
proof -
  have "foldl (\<lambda>n c. 10 * n + digit_val c) 0 (replicate z (CHR ''0'')) = 0"
    by (induction z) (simp_all add: char_defs)
  then show ?thesis by (simp add: number_def)
qed

lemma fmt_d_negative: "k < 0 \<Longrightarrow> CHR ''-'' \<in> set (fmt_d zero wid k)"
  by (auto simp: fmt_d_def Let_def split: option.splits)

lemma fmt_d_pad2: "0 \<le> k \<Longrightarrow> length (fmt_d True (Some 2) k) = 2
    \<Longrightarrow> fmt_d True (Some 2) k = replicate (2 - length (digits (nat k))) (CHR ''0'') @ digits (nat k)"
  by (auto simp: fmt_d_def Let_def)

lemma index_roundtrip:
  assumes "length (fmt_d True (Some 2) k) = 2" and "list_all is_digit (fmt_d True (Some 2) k)"
  shows "Atoi (fmt_d True (Some 2) k) = Some k"
proof -
  have nonneg: "0 \<le> k"
  proof (rule ccontr)
    assume "\<not> 0 \<le> k"
    then have "CHR ''-'' \<in> set (fmt_d True (Some 2) k)" by (simp add: fmt_d_negative)
    with assms(2) have "is_digit (CHR ''-'')" by (simp add: list_all_iff)
    then show False by (simp add: char_defs)
  qed
  from fmt_d_pad2 [OF nonneg assms(1)] have "number (fmt_d True (Some 2) k) = nat k"
    by (simp add: number_zeros number_digits)
  with Atoi_two_digits [OF assms] nonneg show ?thesis by simp
qed

lemma valid_Index_digits:
  assumes "valid_for tokenIndex x"
  shows "length x = 2 \<and> list_all is_digit x"
proof -
  from valid_Index [OF assms] have "match_pieces [Exactly digit_cls 2] (asc x @ []) = [(asc x, [])]"
    by blast
  then have "captured [Exactly digit_cls 2] (concat (asc x))"
    unfolding captured_def by (metis list.set_intros(1))
  with captured_digits show ?thesis by (simp add: concat_asc)
qed

lemma valid_for_Index_update [simp]: "valid_for (t\<lparr>token.Index := j\<rparr>) v = valid_for t v"
  by (simp add: valid_for_def)

lemma valid_arg_Index_update [simp]: "valid_arg (t\<lparr>token.Index := j\<rparr>) a = valid_arg t a"
  by (simp add: valid_arg_def split: option.splits)

lemma Sprintf_s: "Sprintf ''%s'' [a] = (case a of S v \<Rightarrow> Some v | D k \<Rightarrow> None)"
  by (cases a) (simp_all add: fmt_defs char_defs)

lemma Sprintf_02d: "Sprintf ''%02d'' [a] = (case a of S v \<Rightarrow> None | D k \<Rightarrow> Some (fmt_d True (Some 2) k))"
  by (cases a) (simp_all add: fmt_defs char_defs)

lemma valid_arg_s:
  "formatSpecifier t = ''%s'' \<Longrightarrow> valid_arg t a \<Longrightarrow> \<exists>v. a = S v \<and> valid_for t v"
  by (cases a) (simp_all add: valid_arg_def Sprintf_s)

lemma valid_arg_Index:
  "valid_arg tokenIndex a \<Longrightarrow> \<exists>k. a = D k \<and> valid_for tokenIndex (fmt_d True (Some 2) k)"
  by (cases a) (simp_all add: valid_arg_def tokenIndex_def Sprintf_02d)

lemma asc_Nil_iff: "asc v = [] \<longleftrightarrow> v = []"
  by (simp add: asc_def)

lemma cap_step:
  assumes "\<And>R'. match_pieces ps (asc v @ R') = [(asc v, R')]"
  shows "match_nodes (Capture ps # ns) at0 (asc v @ R) =
           map (\<lambda>(t', caps, r'). (asc v @ t', v # caps, r')) (match_nodes ns (at0 \<and> v = []) R)"
  by (simp add: assms concat_asc asc_Nil_iff)

lemma tail_step:
  assumes "ex \<noteq> []" "list_all (atom_ok alnum_cls) (asc ex)"
  shows "match_nodes (tail_nodes @ [EndText]) at0 (asc ''.'' @ asc ex) =
           [(asc ''.'' @ asc ex, [ex], [])]"
proof -
  have 1: "asc ''.'' @ asc ex = [CHR ''.''] # asc ex" by (simp add: asc_def)
  have 2: "asc ex \<noteq> []" using assms(1) by (simp add: asc_def)
  show ?thesis unfolding 1 tail_nodes_def using assms(2) 2
    by (simp add: match_tail concat_asc del: match_nodes.simps(5))
qed

section \<open>Rendering, then matching\<close>

lemma roundtrip_Renamed:
  assumes "valid_for tokenDate d" "valid_for tokenId i" "valid_for tokenIndex x"
    "valid_for tokenExtension ex"
  shows "matches_of Renamed (''Recording _-_ Date '' @ d @ '' _-_ ID '' @ i @ '' _-_ Part '' @ x @ ''.'' @ ex)
         = [''Recording _-_ Date '' @ d @ '' _-_ ID '' @ i @ '' _-_ Part '' @ x @ ''.'' @ ex, d, i, x, ex]"
proof -
  let ?n = "''Recording _-_ Date '' @ d @ '' _-_ ID '' @ i @ '' _-_ Part '' @ x @ ''.'' @ ex"
  from valid_Date [OF assms(1)] have ad: "list_all ascii d"
    and md: "\<And>R. match_pieces date_ps (asc d @ R) = [(asc d, R)]" by simp_all
  from valid_Id [OF assms(2)] have ai: "list_all ascii i"
    and mi: "\<And>R. match_pieces [Exactly digit_cls 4] (asc i @ R) = [(asc i, R)]" by simp_all
  from valid_Index [OF assms(3)] have ax: "list_all ascii x"
    and mx: "\<And>R. match_pieces [Exactly digit_cls 2] (asc x @ R) = [(asc x, R)]" by simp_all
  from valid_Extension [OF assms(4)] have ae: "list_all ascii ex" and ne: "ex \<noteq> []"
    and me: "list_all (atom_ok alnum_cls) (asc ex)" by simp_all
  have "list_all ascii ?n"
    using ad ai ax ae by (simp add: ascii_def byte_def)
  then have "runes ?n = asc ?n" by (rule runes_ascii)
  then have r: "runes ?n = asc ''Recording _-_ Date '' @ asc d @ asc '' _-_ ID '' @ asc i @
                  asc '' _-_ Part '' @ asc x @ asc ''.'' @ asc ex"
    by (simp only: asc_append)
  have "match_nodes (renamed_body @ [EndText]) True (runes ?n) = [(runes ?n, [d, i, x, ex], [])]"
    unfolding r renamed_body_def
    by (simp add: match_lits cap_step [OF md] cap_step [OF mi] cap_step [OF mx]
          tail_step [OF ne me] del: match_nodes.simps)
  then show ?thesis
    by (simp add: matches_of_Renamed FindStringSubmatch_anchored concat_runes del: runes.simps)
qed

lemma roundtrip_Merged:
  assumes "valid_for tokenDate d" "valid_for tokenId i" "valid_for tokenExtension ex"
  shows "matches_of Merged (''Recording _-_ Date '' @ d @ '' _-_ ID '' @ i @ ''.'' @ ex)
         = [''Recording _-_ Date '' @ d @ '' _-_ ID '' @ i @ ''.'' @ ex, d, i, ex]"
proof -
  let ?n = "''Recording _-_ Date '' @ d @ '' _-_ ID '' @ i @ ''.'' @ ex"
  from valid_Date [OF assms(1)] have ad: "list_all ascii d"
    and md: "\<And>R. match_pieces date_ps (asc d @ R) = [(asc d, R)]" by simp_all
  from valid_Id [OF assms(2)] have ai: "list_all ascii i"
    and mi: "\<And>R. match_pieces [Exactly digit_cls 4] (asc i @ R) = [(asc i, R)]" by simp_all
  from valid_Extension [OF assms(3)] have ae: "list_all ascii ex" and ne: "ex \<noteq> []"
    and me: "list_all (atom_ok alnum_cls) (asc ex)" by simp_all
  have "list_all ascii ?n"
    using ad ai ae by (simp add: ascii_def byte_def)
  then have "runes ?n = asc ?n" by (rule runes_ascii)
  then have r: "runes ?n = asc ''Recording _-_ Date '' @ asc d @ asc '' _-_ ID '' @ asc i @
                  asc ''.'' @ asc ex"
    by (simp only: asc_append)
  have "match_nodes (merged_body @ [EndText]) True (runes ?n) = [(runes ?n, [d, i, ex], [])]"
    unfolding r merged_body_def
    by (simp add: match_lits cap_step [OF md] cap_step [OF mi]
          tail_step [OF ne me] del: match_nodes.simps)
  then show ?thesis
    by (simp add: matches_of_Merged FindStringSubmatch_anchored concat_runes del: runes.simps)
qed

lemma roundtrip_Raw:
  assumes "valid_for tokenCodec c" "valid_for tokenIndex x" "valid_for tokenId i"
    "valid_for tokenExtension ex"
  shows "matches_of Raw (''G'' @ c @ x @ i @ ''.'' @ ex) = [''G'' @ c @ x @ i @ ''.'' @ ex, c, x, i, ex]"
proof -
  let ?n = "''G'' @ c @ x @ i @ ''.'' @ ex"
  from valid_Codec [OF assms(1)] have ac: "list_all ascii c"
    and mc: "\<And>R. match_pieces [One codec_cls] (asc c @ R) = [(asc c, R)]" by simp_all
  from valid_Index [OF assms(2)] have ax: "list_all ascii x"
    and mx: "\<And>R. match_pieces [Exactly digit_cls 2] (asc x @ R) = [(asc x, R)]" by simp_all
  from valid_Id [OF assms(3)] have ai: "list_all ascii i"
    and mi: "\<And>R. match_pieces [Exactly digit_cls 4] (asc i @ R) = [(asc i, R)]" by simp_all
  from valid_Extension [OF assms(4)] have ae: "list_all ascii ex" and ne: "ex \<noteq> []"
    and me: "list_all (atom_ok alnum_cls) (asc ex)" by simp_all
  have "list_all ascii ?n"
    using ac ai ax ae by (simp add: ascii_def byte_def)
  then have "runes ?n = asc ?n" by (rule runes_ascii)
  then have r: "runes ?n = asc ''G'' @ asc c @ asc x @ asc i @ asc ''.'' @ asc ex"
    by (simp only: asc_append)
  have "match_nodes (raw_body @ [EndText]) True (runes ?n) = [(runes ?n, [c, x, i, ex], [])]"
    unfolding r raw_body_def
    by (simp add: match_lits cap_step [OF mc] cap_step [OF mi] cap_step [OF mx]
          tail_step [OF ne me] del: match_nodes.simps)
  then show ?thesis
    by (simp add: matches_of_Raw FindStringSubmatch_anchored concat_runes del: runes.simps)
qed

lemma tokens_of_Raw:
  "tokens_of Raw = [tokenCodec\<lparr>token.Index := 0\<rparr>, tokenIndex\<lparr>token.Index := 1\<rparr>,
                    tokenId\<lparr>token.Index := 2\<rparr>, tokenExtension\<lparr>token.Index := 3\<rparr>]"
  by (simp add: tokens_of_def Raw_def compile_defs char_defs fmt_defs)

lemma tokens_of_Renamed:
  "tokens_of Renamed = [tokenDate\<lparr>token.Index := 0\<rparr>, tokenId\<lparr>token.Index := 1\<rparr>,
                        tokenIndex\<lparr>token.Index := 2\<rparr>, tokenExtension\<lparr>token.Index := 3\<rparr>]"
  by (simp add: tokens_of_def Renamed_def compile_defs char_defs fmt_defs)

lemma tokens_of_Merged:
  "tokens_of Merged = [tokenDate\<lparr>token.Index := 0\<rparr>, tokenId\<lparr>token.Index := 1\<rparr>,
                       tokenExtension\<lparr>token.Index := 2\<rparr>]"
  by (simp add: tokens_of_def Merged_def compile_defs char_defs fmt_defs)

lemma format_s:
  "formatSpecifier tokenDate = ''%s''" "formatSpecifier tokenId = ''%s''"
  "formatSpecifier tokenExtension = ''%s''" "formatSpecifier tokenCodec = ''%s''"
  by (simp_all add: tokenDate_def tokenId_def tokenExtension_def tokenCodec_def)

lemma formatSpecifier_tokenIndex: "formatSpecifier tokenIndex = ''%02d''"
  by (simp add: tokenIndex_def)

lemma roundtrip_Renamed_args:
  assumes "list_all2 valid_arg (tokens_of Renamed) args"
  shows "\<exists>n caps. render Renamed args = Some n \<and> matches_of Renamed n = n # caps
                  \<and> list_all2 recovers caps args"
proof -
  from assms obtain a1 a2 a3 a4 where args: "args = [a1, a2, a3, a4]"
    and v: "valid_arg tokenDate a1" "valid_arg tokenId a2" "valid_arg tokenIndex a3"
      "valid_arg tokenExtension a4"
    unfolding tokens_of_Renamed by (auto dest!: list_all2_4)
  from v obtain d i k ex where a: "a1 = S d" "a2 = S i" "a3 = D k" "a4 = S ex"
    and vf: "valid_for tokenDate d" "valid_for tokenId i"
      "valid_for tokenIndex (fmt_d True (Some 2) k)" "valid_for tokenExtension ex"
    using valid_arg_s [OF format_s(1)] valid_arg_s [OF format_s(2)] valid_arg_s [OF format_s(3)]
      valid_arg_Index by metis
  from valid_Index_digits [OF vf(3)] have "Atoi (fmt_d True (Some 2) k) = Some k"
    by (simp add: index_roundtrip)
  with roundtrip_Renamed [OF vf] show ?thesis
    by (simp add: args a render_Renamed)
qed

lemma roundtrip_Raw_args:
  assumes "list_all2 valid_arg (tokens_of Raw) args"
  shows "\<exists>n caps. render Raw args = Some n \<and> matches_of Raw n = n # caps
                  \<and> list_all2 recovers caps args"
proof -
  from assms obtain a1 a2 a3 a4 where args: "args = [a1, a2, a3, a4]"
    and v: "valid_arg tokenCodec a1" "valid_arg tokenIndex a2" "valid_arg tokenId a3"
      "valid_arg tokenExtension a4"
    unfolding tokens_of_Raw by (auto dest!: list_all2_4)
  from v obtain c k i ex where a: "a1 = S c" "a2 = D k" "a3 = S i" "a4 = S ex"
    and vf: "valid_for tokenCodec c" "valid_for tokenIndex (fmt_d True (Some 2) k)"
      "valid_for tokenId i" "valid_for tokenExtension ex"
    using valid_arg_s [OF format_s(4)] valid_arg_s [OF format_s(2)] valid_arg_s [OF format_s(3)]
      valid_arg_Index by metis
  from valid_Index_digits [OF vf(2)] have "Atoi (fmt_d True (Some 2) k) = Some k"
    by (simp add: index_roundtrip)
  with roundtrip_Raw [OF vf] show ?thesis
    by (simp add: args a render_Raw)
qed

lemma roundtrip_Merged_args:
  assumes "list_all2 valid_arg (tokens_of Merged) args"
  shows "\<exists>n caps. render Merged args = Some n \<and> matches_of Merged n = n # caps
                  \<and> list_all2 recovers caps args"
proof -
  from assms obtain a1 a2 a3 where args: "args = [a1, a2, a3]"
    and v: "valid_arg tokenDate a1" "valid_arg tokenId a2" "valid_arg tokenExtension a3"
    unfolding tokens_of_Merged by (auto dest!: list_all2_3)
  from v obtain d i ex where a: "a1 = S d" "a2 = S i" "a3 = S ex"
    and vf: "valid_for tokenDate d" "valid_for tokenId i" "valid_for tokenExtension ex"
    using valid_arg_s [OF format_s(1)] valid_arg_s [OF format_s(2)] valid_arg_s [OF format_s(3)]
    by metis
  from roundtrip_Merged [OF vf] show ?thesis
    by (simp add: args a render_Merged)
qed

text \<open>
  Claim C3. For each of the three package matchers and every list of values that
  is valid for the matcher's tokens (each value, formatted by its token's format
  specifier, matches the token's capture expression as a whole), the layout
  applied to the values gives a name that the matcher's pattern matches, and the
  submatches give the values back in token order: a string value as it is, the
  integer index as the two digits that \<open>Atoi\<close> reads back to it.
\<close>

theorem render_match_roundtrip:
  assumes "M = Raw \<or> M = Renamed \<or> M = Merged"
    and "list_all2 valid_arg (tokens_of M) args"
  shows "\<exists>n caps. render M args = Some n \<and> matches_of M n = n # caps
                  \<and> list_all2 recovers caps args"
  using assms roundtrip_Raw_args roundtrip_Renamed_args roundtrip_Merged_args by blast

lemma valid_for_examples:
  "valid_for tokenDate ''2023-06-01 10_00_00''" "valid_for tokenId ''0042''"
  "valid_for tokenIndex ''01''" "valid_for tokenExtension ''mp4''"
  unfolding valid_for_def compile_group_Date compile_group_Id compile_group_Index
    compile_group_Extension
  by (simp_all add: eval_match)

lemma fmt_d_1: "fmt_d True (Some 2) 1 = ''01''"
  by (simp add: fmt_d_def digits.simps digit_char_simps)

lemma valid_example:
  "list_all2 valid_arg (tokens_of Renamed) [S ''2023-06-01 10_00_00'', S ''0042'', D 1, S ''mp4'']"
  unfolding tokens_of_Renamed
  by (simp add: valid_arg_def Sprintf_s Sprintf_02d format_s formatSpecifier_tokenIndex
        valid_for_examples fmt_d_1)

theorem render_match_roundtrip_witness:
  "(Renamed = Raw \<or> Renamed = Renamed \<or> Renamed = Merged)
   \<and> list_all2 valid_arg (tokens_of Renamed) [S ''2023-06-01 10_00_00'', S ''0042'', D 1, S ''mp4'']
   \<and> (\<exists>n caps. render Renamed [S ''2023-06-01 10_00_00'', S ''0042'', D 1, S ''mp4''] = Some n
         \<and> matches_of Renamed n = n # caps
         \<and> list_all2 recovers caps [S ''2023-06-01 10_00_00'', S ''0042'', D 1, S ''mp4''])"
  using render_match_roundtrip [of Renamed, OF _ valid_example] valid_example by simp

section \<open>Add in closed form\<close>

lemma finish_Returned:
  assumes "parseMetadata e vf = Returned vf'"
  shows "finish e vf =
           Returned (vf'\<lparr>NewName := new_name (CreationTime vf') (Id vf') (Index vf') (Extension vf')\<rparr>)"
proof -
  from Renamed_compiled obtain m where m: "Renamed = Some m"
    "Layout m = ''Recording _-_ Date %s _-_ ID %s _-_ Part %02d.%s''"
    by blast
  show ?thesis unfolding finish_def assms m(1) using m(2)
    by (simp add: must_def Sprintf_Renamed new_name_def)
qed

lemma finish_not_Returned:
  "parseMetadata e vf = Failed err \<Longrightarrow> finish e vf = Failed err"
  "parseMetadata e vf = Panicked \<Longrightarrow> finish e vf = Panicked"
  by (simp_all add: finish_def)

lemma parseMetadata_Returned:
  assumes "parseMetadata e vf = Returned vf'"
  shows "\<exists>c t. vf' = vf\<lparr>Codec := c, CreationTime := Some t\<rparr>"
  using assms
  by (auto simp: parseMetadata_def must_def split: probe_reply.splits option.splits tag.splits)

lemma parseMetadata_name:
  "CurrentName vf = CurrentName vf0 \<Longrightarrow>
   parseMetadata e vf =
     (case parseMetadata e vf0 of
        Returned r \<Rightarrow> Returned (vf\<lparr>Codec := Codec r, CreationTime := CreationTime r\<rparr>)
      | Failed err \<Rightarrow> Failed err
      | Panicked \<Rightarrow> Panicked)"
  by (simp add: parseMetadata_def InputPath_def must_def
           split: probe_reply.splits option.splits tag.splits)

lemma Add_locked_eq: "Add_locked f vl = Returned (vl(Id f \<mapsto> added f (entry_of f vl)))"
proof -
  from Merged_compiled obtain m where m: "Merged = Some m"
    "Layout m = ''Recording _-_ Date %s _-_ ID %s.%s''"
    by blast
  show ?thesis unfolding Add_locked_def m(1) using m(2)
    by (cases "CreationTime (entry_of f vl)")
       (auto simp: must_def Sprintf_Merged added_def merged_name_def entry_of_def Let_def max_def)
qed

lemma Add_eq:
  "Add e n vl =
     (case Parse e (fragment_lit n) of
        Returned f \<Rightarrow> (vl(Id f \<mapsto> added f (entry_of f vl)), Returned ())
      | Failed err \<Rightarrow> (vl, Failed err)
      | Panicked \<Rightarrow> (vl, Panicked))"
  by (simp add: Add_def Add_locked_eq split: outcome.splits)

lemma Parse_Returned:
  assumes "Parse e (fragment_lit n) = Returned f"
  shows "CreationTime f \<noteq> None \<and> 0 \<le> Index f \<and> CurrentName f = n
         \<and> NewName f = new_name (CreationTime f) (Id f) (Index f) (Extension f)"
proof -
  from assms obtain vf0 where vf0: "finish e vf0 = Returned f" "0 \<le> Index vf0" "CurrentName vf0 = n"
    by (auto simp: Parse_priority Let_def fragment_lit_def split: if_splits)
  then obtain vf' where pm: "parseMetadata e vf0 = Returned vf'"
    by (cases "parseMetadata e vf0") (simp_all add: finish_not_Returned)
  from parseMetadata_Returned [OF pm] obtain c t where "vf' = vf0\<lparr>Codec := c, CreationTime := Some t\<rparr>"
    by blast
  with finish_Returned [OF pm] vf0 show ?thesis by auto
qed

section \<open>What every list of videos satisfies\<close>

lemma inv_empty: "inv Map.empty"
  by (simp add: inv_def)

lemma inv_entry_added:
  assumes "CreationTime f \<noteq> None" "0 \<le> Index f"
    and "\<And>w. vl (Id f) = Some w \<Longrightarrow> inv_entry (Id f) w"
  shows "inv_entry (Id f) (added f (entry_of f vl))"
proof (cases "vl (Id f)")
  case None
  with assms(1,2) show ?thesis
    by (auto simp: inv_entry_def added_def entry_of_def whole_lit_def Let_def)
next
  case (Some w)
  with assms(3) have "inv_entry (Id f) w" by simp
  with Some assms(2) show ?thesis
    by (auto simp: inv_entry_def added_def entry_of_def Let_def)
qed

lemma inv_Add:
  assumes "inv vl"
  shows "inv (fst (Add e n vl))"
proof (cases "Parse e (fragment_lit n)")
  case (Returned f)
  from Parse_Returned [OF Returned] have f: "CreationTime f \<noteq> None" "0 \<le> Index f" by simp_all
  from assms have "\<And>w. vl (Id f) = Some w \<Longrightarrow> inv_entry (Id f) w" by (simp add: inv_def)
  from inv_entry_added [OF f this] assms Returned show ?thesis
    by (simp add: Add_eq inv_def)
qed (simp_all add: Add_eq assms)

lemma inv_Add_entries: "inv vl \<Longrightarrow> Add_entries e ns vl = Some vl' \<Longrightarrow> inv vl'"
proof (induction ns arbitrary: vl)
  case Nil
  then show ?case by simp
next
  case (Cons n ns)
  obtain vl1 r where a: "Add e n vl = (vl1, r)" by (cases "Add e n vl")
  with Cons.prems(2) have "Add_entries e ns vl1 = Some vl'"
    by (cases r) simp_all
  moreover from inv_Add [OF Cons.prems(1), of e n] a have "inv vl1" by simp
  ultimately show ?case by (rule Cons.IH [rotated])
qed

text \<open>
  Claim C5. After any sequence of \<open>Add\<close> calls on the empty list of videos, every
  recording in the list has at least one fragment, is stored under its own id,
  and each of its fragments carries the recording's id and the recording's
  creation time.
\<close>

theorem recordings_consistent:
  assumes "Add_entries e ns Map.empty = Some vl" and "vl k = Some w"
  shows "Fragments w \<noteq> [] \<and> Id w = k
         \<and> list_all (\<lambda>f. Id f = Id w \<and> CreationTime f = CreationTime w) (Fragments w)"
proof -
  from inv_Add_entries [OF inv_empty assms(1)] assms(2) have "inv_entry k w"
    by (simp add: inv_def)
  then show ?thesis by (auto simp: inv_entry_def)
qed

lemma fmt_d_0: "fmt_d True (Some 2) 0 = ''00''"
  by (simp add: fmt_d_def digits.simps digit_char_simps)

text \<open>
  Claim C10. A name that only the merged pattern matches, and whose probe
  succeeds, is added as a fragment with index 0: its new name is rendered with
  \<^verbatim>\<open>Part 00\<close>, and the expected count of its recording stays what it was (0 for a
  new recording), in every list of videos that earlier \<open>Add\<close> calls have built.
\<close>

theorem merged_name_added_as_part_zero:
  assumes "matches_of Renamed n = []" and "matches_of Raw n = []"
    and "matches_of Merged n \<noteq> []"
    and "parseMetadata e (fragment_lit n) = Returned r"
    and "Add_entries e ns Map.empty = Some vl"
  shows "\<exists>f w'. Add e n vl = (vl(matches_of Merged n ! 2 \<mapsto> w'), Returned ())
           \<and> Fragments w' =
               (case vl (matches_of Merged n ! 2) of None \<Rightarrow> [] | Some w \<Rightarrow> Fragments w) @ [f]
           \<and> CurrentName f = n \<and> Index f = 0
           \<and> NewName f = ''Recording _-_ Date '' @ CreationTimeString (CreationTime r) @
                          '' _-_ ID '' @ matches_of Merged n ! 2 @ '' _-_ Part 00.'' @
                          matches_of Merged n ! 3
           \<and> Expected w' =
               (case vl (matches_of Merged n ! 2) of None \<Rightarrow> 0 | Some w \<Rightarrow> Expected w)"
proof -
  let ?i = "matches_of Merged n ! 2" and ?ex = "matches_of Merged n ! 3"
  let ?vf = "(fragment_lit n)\<lparr>Id := ?i, Extension := ?ex\<rparr>"
  have "CurrentName ?vf = CurrentName (fragment_lit n)" by simp
  from parseMetadata_name [OF this, of e] assms(4)
  have pm: "parseMetadata e ?vf = Returned (?vf\<lparr>Codec := Codec r, CreationTime := CreationTime r\<rparr>)"
    by simp
  let ?f = "?vf\<lparr>Codec := Codec r, CreationTime := CreationTime r,
                 NewName := new_name (CreationTime r) ?i 0 ?ex\<rparr>"
  from assms(1-3) finish_Returned [OF pm] have p: "Parse e (fragment_lit n) = Returned ?f"
    by (simp add: Parse_priority Let_def fragment_lit_def)
  have id: "Id ?f = ?i" by simp
  from inv_Add_entries [OF inv_empty assms(5)]
  have old: "\<And>w. vl ?i = Some w \<Longrightarrow> 0 \<le> Expected w"
    by (simp add: inv_def inv_entry_def)
  let ?w = "added ?f (entry_of ?f vl)"
  let ?g = "?f\<lparr>CreationTime := CreationTime ?w\<rparr>"
  have 1: "Add e n vl = (vl(?i \<mapsto> ?w), Returned ())"
    by (simp add: Add_eq p)
  have 2: "Fragments ?w = (case vl ?i of None \<Rightarrow> [] | Some w \<Rightarrow> Fragments w) @ [?g]"
    by (simp add: added_def entry_of_def whole_lit_def Let_def split: option.splits)
  have 3: "CurrentName ?g = n" "Index ?g = 0"
    by (simp_all add: fragment_lit_def)
  have 4: "NewName ?g = ''Recording _-_ Date '' @ CreationTimeString (CreationTime r) @
                          '' _-_ ID '' @ ?i @ '' _-_ Part 00.'' @ ?ex"
    by (simp add: new_name_def fmt_d_0)
  have 5: "Expected ?w = (case vl ?i of None \<Rightarrow> 0 | Some w \<Rightarrow> Expected w)"
    using old by (auto simp: added_def entry_of_def whole_lit_def Let_def fragment_lit_def
                       split: option.splits)
  from 1 2 3 4 5 show ?thesis by blast
qed

section \<open>A directory with two fragments\<close>

lemmas time_defs = time_Parse_def field_def fracSecond_def number_def daysIn_def isLeap_def
  Time_Format_def appendInt_def digits.simps digit_char_simps CreationTimeString_def

lemma parseMetadata_reply:
  assumes "ffprobe e (InputPath e vf) = reply c s" and "time_Parse s = Some t"
  shows "parseMetadata e vf = Returned (vf\<lparr>Codec := c, CreationTime := Some t\<rparr>)"
  using assms by (simp add: parseMetadata_def reply_def must_def index_def)

lemma scenario_time_Parse: "time_Parse ''2023-06-01T10:00:00.5Z'' = Some scenario_time"
  by (simp add: time_defs char_defs scenario_time_def)

lemma scenario_time_string: "CreationTimeString (Some scenario_time) = ''2023-06-01 10_00_00''"
  by (simp add: time_defs scenario_time_def)

lemma scenario_matches:
  "matches_of Renamed ''GX010042.mp4'' = []"
  "matches_of Raw ''GX010042.mp4'' = [''GX010042.mp4'', ''X'', ''01'', ''0042'', ''mp4'']"
  "matches_of Renamed ''GX020042.mp4'' = []"
  "matches_of Raw ''GX020042.mp4'' = [''GX020042.mp4'', ''X'', ''02'', ''0042'', ''mp4'']"
  unfolding matches_of_Renamed matches_of_Raw by (simp_all add: eval_match)

lemma fmt_d_2: "fmt_d True (Some 2) 2 = ''02''"
  by (simp add: fmt_d_def digits.simps digit_char_simps)

lemma scenario_Parse:
  assumes "ffprobe e = (\<lambda>_. reply ''h264'' ''2023-06-01T10:00:00.5Z'')"
  shows "Parse e (fragment_lit ''GX010042.mp4'') =
           Returned (scenario_fragment ''GX010042.mp4'' 1
             ''Recording _-_ Date 2023-06-01 10_00_00 _-_ ID 0042 _-_ Part 01.mp4'')"
    and "Parse e (fragment_lit ''GX020042.mp4'') =
           Returned (scenario_fragment ''GX020042.mp4'' 2
             ''Recording _-_ Date 2023-06-01 10_00_00 _-_ ID 0042 _-_ Part 02.mp4'')"
proof -
  have pm: "parseMetadata e vf = Returned (vf\<lparr>Codec := ''h264'', CreationTime := Some scenario_time\<rparr>)"
    for vf
    using parseMetadata_reply [of e vf "''h264''" "''2023-06-01T10:00:00.5Z''", OF _ scenario_time_Parse]
    by (simp add: assms)
  show "Parse e (fragment_lit ''GX010042.mp4'') =
           Returned (scenario_fragment ''GX010042.mp4'' 1
             ''Recording _-_ Date 2023-06-01 10_00_00 _-_ ID 0042 _-_ Part 01.mp4'')"
    by (simp add: Parse_priority scenario_matches Let_def fragment_lit_def finish_Returned [OF pm]
          new_name_def scenario_time_string fmt_d_1 number_def char_defs scenario_fragment_def)
  show "Parse e (fragment_lit ''GX020042.mp4'') =
           Returned (scenario_fragment ''GX020042.mp4'' 2
             ''Recording _-_ Date 2023-06-01 10_00_00 _-_ ID 0042 _-_ Part 02.mp4'')"
    by (simp add: Parse_priority scenario_matches Let_def fragment_lit_def finish_Returned [OF pm]
          new_name_def scenario_time_string fmt_d_2 number_def char_defs scenario_fragment_def)
qed

lemma scenario_entries:
  assumes "ffprobe e = (\<lambda>_. reply ''h264'' ''2023-06-01T10:00:00.5Z'')"
  shows "Add_entries e [''GX010042.mp4'', ''GX020042.mp4''] Map.empty =
           Some [''0042'' \<mapsto> scenario_whole
             [scenario_fragment ''GX010042.mp4'' 1
                ''Recording _-_ Date 2023-06-01 10_00_00 _-_ ID 0042 _-_ Part 01.mp4'',
              scenario_fragment ''GX020042.mp4'' 2
                ''Recording _-_ Date 2023-06-01 10_00_00 _-_ ID 0042 _-_ Part 02.mp4'']]"
    and "Add_entries e [''GX020042.mp4'', ''GX010042.mp4''] Map.empty =
           Some [''0042'' \<mapsto> scenario_whole
             [scenario_fragment ''GX020042.mp4'' 2
                ''Recording _-_ Date 2023-06-01 10_00_00 _-_ ID 0042 _-_ Part 02.mp4'',
              scenario_fragment ''GX010042.mp4'' 1
                ''Recording _-_ Date 2023-06-01 10_00_00 _-_ ID 0042 _-_ Part 01.mp4'']]"
  by (simp_all add: Add_eq scenario_Parse [OF assms] added_def entry_of_def whole_lit_def
        merged_name_def scenario_time_string scenario_fragment_def scenario_whole_def Let_def)

text \<open>
  Claim C1, as amended. For the names \<^verbatim>\<open>GX010042.mp4\<close> and \<^verbatim>\<open>GX020042.mp4\<close> in one
  directory (any directory, any path join), both probing to the creation time
  \<^verbatim>\<open>2023-06-01T10:00:00.5Z\<close> and the codec h264, the two \<open>Add\<close> calls in either
  order leave exactly one recording, under the id 0042, with expected count 2 and
  the fragments' new names ending in \<^verbatim>\<open>Part 01.mp4\<close> and \<^verbatim>\<open>Part 02.mp4\<close>; its
  merged name ends in \<^verbatim>\<open>.mkv\<close>, the extension that \<open>Add\<close> passes to the merged layout.
\<close>

theorem scenario_two_fragments:
  "(\<exists>w. Add_entries (e\<lparr>ffprobe := \<lambda>_. reply ''h264'' ''2023-06-01T10:00:00.5Z''\<rparr>)
          [''GX010042.mp4'', ''GX020042.mp4''] Map.empty = Some [''0042'' \<mapsto> w]
        \<and> Id w = ''0042'' \<and> Expected w = 2
        \<and> map (\<lambda>f. (CurrentName f, NewName f)) (Fragments w) =
            [(''GX010042.mp4'', ''Recording _-_ Date 2023-06-01 10_00_00 _-_ ID 0042 _-_ Part 01.mp4''),
             (''GX020042.mp4'', ''Recording _-_ Date 2023-06-01 10_00_00 _-_ ID 0042 _-_ Part 02.mp4'')]
        \<and> Name w = ''Recording _-_ Date 2023-06-01 10_00_00 _-_ ID 0042.mkv'')
   \<and> (\<exists>w. Add_entries (e\<lparr>ffprobe := \<lambda>_. reply ''h264'' ''2023-06-01T10:00:00.5Z''\<rparr>)
          [''GX020042.mp4'', ''GX010042.mp4''] Map.empty = Some [''0042'' \<mapsto> w]
        \<and> Id w = ''0042'' \<and> Expected w = 2
        \<and> map (\<lambda>f. (CurrentName f, NewName f)) (Fragments w) =
            [(''GX020042.mp4'', ''Recording _-_ Date 2023-06-01 10_00_00 _-_ ID 0042 _-_ Part 02.mp4''),
             (''GX010042.mp4'', ''Recording _-_ Date 2023-06-01 10_00_00 _-_ ID 0042 _-_ Part 01.mp4'')]
        \<and> Name w = ''Recording _-_ Date 2023-06-01 10_00_00 _-_ ID 0042.mkv'')"
proof -
  let ?e = "e\<lparr>ffprobe := \<lambda>_. reply ''h264'' ''2023-06-01T10:00:00.5Z''\<rparr>"
  have p: "ffprobe ?e = (\<lambda>_. reply ''h264'' ''2023-06-01T10:00:00.5Z'')" by simp
  show ?thesis
  proof (intro conjI)
    show "\<exists>w. Add_entries ?e [''GX010042.mp4'', ''GX020042.mp4''] Map.empty = Some [''0042'' \<mapsto> w]
        \<and> Id w = ''0042'' \<and> Expected w = 2
        \<and> map (\<lambda>f. (CurrentName f, NewName f)) (Fragments w) =
            [(''GX010042.mp4'', ''Recording _-_ Date 2023-06-01 10_00_00 _-_ ID 0042 _-_ Part 01.mp4''),
             (''GX020042.mp4'', ''Recording _-_ Date 2023-06-01 10_00_00 _-_ ID 0042 _-_ Part 02.mp4'')]
        \<and> Name w = ''Recording _-_ Date 2023-06-01 10_00_00 _-_ ID 0042.mkv''"
      by (rule exI, intro conjI, rule scenario_entries(1) [OF p])
         (simp_all add: scenario_whole_def scenario_fragment_def)
    show "\<exists>w. Add_entries ?e [''GX020042.mp4'', ''GX010042.mp4''] Map.empty = Some [''0042'' \<mapsto> w]
        \<and> Id w = ''0042'' \<and> Expected w = 2
        \<and> map (\<lambda>f. (CurrentName f, NewName f)) (Fragments w) =
            [(''GX020042.mp4'', ''Recording _-_ Date 2023-06-01 10_00_00 _-_ ID 0042 _-_ Part 02.mp4''),
             (''GX010042.mp4'', ''Recording _-_ Date 2023-06-01 10_00_00 _-_ ID 0042 _-_ Part 01.mp4'')]
        \<and> Name w = ''Recording _-_ Date 2023-06-01 10_00_00 _-_ ID 0042.mkv''"
      by (rule exI, intro conjI, rule scenario_entries(2) [OF p])
         (simp_all add: scenario_whole_def scenario_fragment_def)
  qed
qed

text \<open>Claim C1 as stated fails: the merged name of the scenario is not the \<^verbatim>\<open>.mp4\<close> name.\<close>

theorem scenario_merged_name_not_mp4:
  "Option.bind (Add_entries (videos_env (\<lambda>_. reply ''h264'' ''2023-06-01T10:00:00.5Z''))
                  [''GX010042.mp4'', ''GX020042.mp4''] Map.empty)
               (\<lambda>vl. map_option Name (vl ''0042''))
     = Some ''Recording _-_ Date 2023-06-01 10_00_00 _-_ ID 0042.mkv''
   \<and> Option.bind (Add_entries (videos_env (\<lambda>_. reply ''h264'' ''2023-06-01T10:00:00.5Z''))
                  [''GX010042.mp4'', ''GX020042.mp4''] Map.empty)
               (\<lambda>vl. map_option Name (vl ''0042''))
     \<noteq> Some ''Recording _-_ Date 2023-06-01 10_00_00 _-_ ID 0042.mp4''"
proof -
  have p: "ffprobe (videos_env (\<lambda>_. reply ''h264'' ''2023-06-01T10:00:00.5Z''))
             = (\<lambda>_. reply ''h264'' ''2023-06-01T10:00:00.5Z'')"
    by (simp add: videos_env_def)
  show ?thesis
    unfolding scenario_entries [OF p] by (simp add: scenario_whole_def)
qed

lemma scenario_env_probe:
  "ffprobe (videos_env (\<lambda>_. reply ''h264'' ''2023-06-01T10:00:00.5Z''))
     = (\<lambda>_. reply ''h264'' ''2023-06-01T10:00:00.5Z'')"
  by (simp add: videos_env_def)

theorem recordings_consistent_witness:
  "Add_entries (videos_env (\<lambda>_. reply ''h264'' ''2023-06-01T10:00:00.5Z''))
     [''GX010042.mp4'', ''GX020042.mp4''] Map.empty =
     Some [''0042'' \<mapsto> scenario_whole
             [scenario_fragment ''GX010042.mp4'' 1
                ''Recording _-_ Date 2023-06-01 10_00_00 _-_ ID 0042 _-_ Part 01.mp4'',
              scenario_fragment ''GX020042.mp4'' 2
                ''Recording _-_ Date 2023-06-01 10_00_00 _-_ ID 0042 _-_ Part 02.mp4'']]
   \<and> (let w = scenario_whole
             [scenario_fragment ''GX010042.mp4'' 1
                ''Recording _-_ Date 2023-06-01 10_00_00 _-_ ID 0042 _-_ Part 01.mp4'',
              scenario_fragment ''GX020042.mp4'' 2
                ''Recording _-_ Date 2023-06-01 10_00_00 _-_ ID 0042 _-_ Part 02.mp4'']
        in [''0042'' \<mapsto> w] ''0042'' = Some w
           \<and> Fragments w \<noteq> [] \<and> Id w = ''0042''
           \<and> list_all (\<lambda>f. Id f = Id w \<and> CreationTime f = CreationTime w) (Fragments w))"
proof -
  note h = scenario_entries(1) [OF scenario_env_probe]
  from recordings_consistent [OF h fun_upd_same] h show ?thesis
    by (simp add: Let_def scenario_whole_def scenario_fragment_def del: Add_entries.simps)
qed

lemma merged_example_matches:
  "matches_of Renamed ''Recording _-_ Date 2023-06-01 10_00_00 _-_ ID 0042.mkv'' = []"
  "matches_of Raw ''Recording _-_ Date 2023-06-01 10_00_00 _-_ ID 0042.mkv'' = []"
  "matches_of Merged ''Recording _-_ Date 2023-06-01 10_00_00 _-_ ID 0042.mkv'' =
     [''Recording _-_ Date 2023-06-01 10_00_00 _-_ ID 0042.mkv'', ''2023-06-01 10_00_00'',
      ''0042'', ''mkv'']"
  unfolding matches_of_Renamed matches_of_Raw matches_of_Merged by (simp_all add: eval_match)

theorem merged_name_added_as_part_zero_witness:
  "matches_of Renamed ''Recording _-_ Date 2023-06-01 10_00_00 _-_ ID 0042.mkv'' = []
   \<and> matches_of Raw ''Recording _-_ Date 2023-06-01 10_00_00 _-_ ID 0042.mkv'' = []
   \<and> matches_of Merged ''Recording _-_ Date 2023-06-01 10_00_00 _-_ ID 0042.mkv'' \<noteq> []
   \<and> parseMetadata (videos_env (\<lambda>_. reply ''h264'' ''2023-06-01T10:00:00.5Z''))
        (fragment_lit ''Recording _-_ Date 2023-06-01 10_00_00 _-_ ID 0042.mkv'') =
      Returned ((fragment_lit ''Recording _-_ Date 2023-06-01 10_00_00 _-_ ID 0042.mkv'')
                  \<lparr>Codec := ''h264'', CreationTime := Some scenario_time\<rparr>)
   \<and> Add_entries (videos_env (\<lambda>_. reply ''h264'' ''2023-06-01T10:00:00.5Z''))
        [''GX010042.mp4'', ''GX020042.mp4''] Map.empty =
      Some [''0042'' \<mapsto> scenario_whole
             [scenario_fragment ''GX010042.mp4'' 1
                ''Recording _-_ Date 2023-06-01 10_00_00 _-_ ID 0042 _-_ Part 01.mp4'',
              scenario_fragment ''GX020042.mp4'' 2
                ''Recording _-_ Date 2023-06-01 10_00_00 _-_ ID 0042 _-_ Part 02.mp4'']]
   \<and> (\<exists>f w'. Add (videos_env (\<lambda>_. reply ''h264'' ''2023-06-01T10:00:00.5Z''))
                 ''Recording _-_ Date 2023-06-01 10_00_00 _-_ ID 0042.mkv''
                 [''0042'' \<mapsto> scenario_whole
                   [scenario_fragment ''GX010042.mp4'' 1
                      ''Recording _-_ Date 2023-06-01 10_00_00 _-_ ID 0042 _-_ Part 01.mp4'',
                    scenario_fragment ''GX020042.mp4'' 2
                      ''Recording _-_ Date 2023-06-01 10_00_00 _-_ ID 0042 _-_ Part 02.mp4'']]
               = ([''0042'' \<mapsto> w'], Returned ())
          \<and> Fragments w' =
               [scenario_fragment ''GX010042.mp4'' 1
                  ''Recording _-_ Date 2023-06-01 10_00_00 _-_ ID 0042 _-_ Part 01.mp4'',
                scenario_fragment ''GX020042.mp4'' 2
                  ''Recording _-_ Date 2023-06-01 10_00_00 _-_ ID 0042 _-_ Part 02.mp4'', f]
          \<and> CurrentName f = ''Recording _-_ Date 2023-06-01 10_00_00 _-_ ID 0042.mkv''
          \<and> Index f = 0
          \<and> NewName f = ''Recording _-_ Date 2023-06-01 10_00_00 _-_ ID 0042 _-_ Part 00.mkv''
          \<and> Expected w' = 2)"
proof -
  let ?e = "videos_env (\<lambda>_. reply ''h264'' ''2023-06-01T10:00:00.5Z'')"
  let ?n = "''Recording _-_ Date 2023-06-01 10_00_00 _-_ ID 0042.mkv''"
  have h3: "matches_of Merged ?n \<noteq> []" by (simp add: merged_example_matches)
  have h4: "parseMetadata ?e (fragment_lit ?n) =
      Returned ((fragment_lit ?n)\<lparr>Codec := ''h264'', CreationTime := Some scenario_time\<rparr>)"
    using parseMetadata_reply [of ?e "fragment_lit ?n" "''h264''" "''2023-06-01T10:00:00.5Z''",
        OF _ scenario_time_Parse]
    by (simp add: scenario_env_probe)
  note h5 = scenario_entries(1) [OF scenario_env_probe]
  from merged_name_added_as_part_zero [OF merged_example_matches(1,2) h3 h4 h5]
  have "\<exists>f w'. Add ?e ?n [''0042'' \<mapsto> scenario_whole
                   [scenario_fragment ''GX010042.mp4'' 1
                      ''Recording _-_ Date 2023-06-01 10_00_00 _-_ ID 0042 _-_ Part 01.mp4'',
                    scenario_fragment ''GX020042.mp4'' 2
                      ''Recording _-_ Date 2023-06-01 10_00_00 _-_ ID 0042 _-_ Part 02.mp4'']]
               = ([''0042'' \<mapsto> w'], Returned ())
          \<and> Fragments w' =
               [scenario_fragment ''GX010042.mp4'' 1
                  ''Recording _-_ Date 2023-06-01 10_00_00 _-_ ID 0042 _-_ Part 01.mp4'',
                scenario_fragment ''GX020042.mp4'' 2
                  ''Recording _-_ Date 2023-06-01 10_00_00 _-_ ID 0042 _-_ Part 02.mp4'', f]
          \<and> CurrentName f = ?n \<and> Index f = 0
          \<and> NewName f = ''Recording _-_ Date 2023-06-01 10_00_00 _-_ ID 0042 _-_ Part 00.mkv''
          \<and> Expected w' = 2"
    by (simp add: merged_example_matches scenario_time_string scenario_whole_def)
  with merged_example_matches(1,2) h3 h4 h5 show ?thesis by blast
qed

text \<open>
  Claim C6 (the code departs from it). \<open>parseMetadata\<close> reads the codec of the first
  stream before it looks at the tags, with no check that there is a stream. For a
  probe whose output decodes to no stream and no \<^verbatim>\<open>creation_time\<close> tag (what
  \<^verbatim>\<open>ffprobe -select_streams v:0\<close> prints for a file without a video stream), \<open>Add\<close>
  does not return an error: it panics.
\<close>

theorem probe_without_streams_panics:
  "Add (videos_env (\<lambda>_. Decoded \<lparr>Streams = [], Format_Tags = Map.empty\<rparr>)) ''GX010042.mp4'' vl
     = (vl, Panicked)"
proof -
  have "parseMetadata (videos_env (\<lambda>_. Decoded \<lparr>Streams = [], Format_Tags = Map.empty\<rparr>)) vf = Panicked"
    for vf
    by (simp add: parseMetadata_def videos_env_def must_def index_def)
  then show ?thesis
    by (simp add: Add_eq Parse_priority scenario_matches Let_def finish_not_Returned
          fragment_lit_def)
qed

text \<open>The rest of the claim holds: whenever the probe of a name returns an error, so does
  \<open>Add\<close>, and the list of videos is the one it was given.\<close>

lemma probe_error_leaves_list:
  assumes "parseMetadata e (fragment_lit n) = Failed err"
    and "matches_of Renamed n \<noteq> [] \<or> matches_of Raw n \<noteq> [] \<or> matches_of Merged n \<noteq> []"
  shows "Add e n vl = (vl, Failed err)"
proof -
  have "parseMetadata e vf = Failed err" if "CurrentName vf = n" for vf
    using parseMetadata_name [of vf "fragment_lit n" e] that assms(1)
    by (simp add: fragment_lit_def)
  then have "finish e vf = Failed err" if "CurrentName vf = n" for vf
    using that by (simp add: finish_not_Returned)
  with assms(2) have "Parse e (fragment_lit n) = Failed err"
    by (auto simp: Parse_priority Let_def fragment_lit_def)
  then show ?thesis by (simp add: Add_eq)
qed

lemma probe_errors:
  "ffprobe e (InputPath e vf) = ExecError \<Longrightarrow> parseMetadata e vf = Failed ProbeFailed"
  "ffprobe e (InputPath e vf) = UnmarshalError \<Longrightarrow> parseMetadata e vf = Failed JsonError"
  "ffprobe e (InputPath e vf) = Decoded d \<Longrightarrow> Streams d \<noteq> [] \<Longrightarrow>
     Format_Tags d ''creation_time'' = None \<Longrightarrow> parseMetadata e vf = Failed TagNotEmbedded"
  "ffprobe e (InputPath e vf) = Decoded d \<Longrightarrow> Streams d \<noteq> [] \<Longrightarrow>
     Format_Tags d ''creation_time'' = Some TagOther \<Longrightarrow> parseMetadata e vf = Failed TagNotString"
  "ffprobe e (InputPath e vf) = Decoded d \<Longrightarrow> Streams d \<noteq> [] \<Longrightarrow>
     Format_Tags d ''creation_time'' = Some (TagString s) \<Longrightarrow> time_Parse s = None \<Longrightarrow>
     parseMetadata e vf = Failed TimeParseError"
  "ffprobe e (InputPath e vf) = Decoded d \<Longrightarrow> Streams d = [] \<Longrightarrow> parseMetadata e vf = Panicked"
  by (simp_all add: parseMetadata_def must_def index_def)

section \<open>Renaming, fragment by fragment\<close>

lemma fragment_commit_same:
  assumes "InputPath e vf = NewPath e vf"
  shows "rename_fragment e (renameActionBuilder acts) k vf w =
           (fst w @ (if k > 0 then [Print_Newline] else []) @ [Log_Already_Renamed (InputPath e vf)],
            snd w)"
  using assms by (simp add: rename_fragment_def renameActionBuilder_def emit_def Let_def)

lemma fragment_commit_differs:
  assumes "InputPath e vf \<noteq> NewPath e vf"
  shows "rename_fragment e (renameActionBuilder [renameInfo, renameCommit os_Rename]) k vf w =
           (fst w @ (if k > 0 then [Print_Newline] else []) @
              [Print_From_To (InputPath e vf) (NewPath e vf), Os_Rename (InputPath e vf) (NewPath e vf)] @
              (case snd (os_Rename (InputPath e vf) (NewPath e vf) (snd w)) of
                 None \<Rightarrow> [] | Some err \<Rightarrow> [Log_Warn err]),
            fst (os_Rename (InputPath e vf) (NewPath e vf) (snd w)))"
  using assms
  by (cases "os_Rename (InputPath e vf) (NewPath e vf) (snd w)")
     (simp add: rename_fragment_def renameActionBuilder_def renameInfo_def renameCommit_def
        emit_def Let_def split: option.splits)

lemma fragment_dry:
  "rename_fragment e renameInfo k vf w =
     (fst w @ (if k > 0 then [Print_Newline] else []) @ [Print_From_To (InputPath e vf) (NewPath e vf)],
      snd w)"
  by (simp add: rename_fragment_def renameInfo_def emit_def Let_def)

lemma loop_commit:
  "snd (rename_loop e (renameActionBuilder [renameInfo, renameCommit os_Rename]) k vfs w) =
     fold (\<lambda>vf fs. fst (os_Rename (InputPath e vf) (NewPath e vf) fs))
          (filter (\<lambda>vf. InputPath e vf \<noteq> NewPath e vf) vfs) (snd w)
   \<and> fs_actions (fst (rename_loop e (renameActionBuilder [renameInfo, renameCommit os_Rename]) k vfs w)) =
       fs_actions (fst w) @
       map (\<lambda>vf. Os_Rename (InputPath e vf) (NewPath e vf))
           (filter (\<lambda>vf. InputPath e vf \<noteq> NewPath e vf) vfs)
   \<and> already_renamed (fst (rename_loop e (renameActionBuilder [renameInfo, renameCommit os_Rename]) k vfs w)) =
       already_renamed (fst w) @
       map (InputPath e) (filter (\<lambda>vf. InputPath e vf = NewPath e vf) vfs)"
proof (induction vfs arbitrary: k w)
  case Nil
  then show ?case by simp
next
  case (Cons vf vfs)
  let ?A = "renameActionBuilder [renameInfo, renameCommit os_Rename]"
  let ?w = "rename_fragment e ?A k vf w"
  show ?case
  proof (cases "InputPath e vf = NewPath e vf")
    case True
    have w: "snd ?w = snd w" "fs_actions (fst ?w) = fs_actions (fst w)"
      "already_renamed (fst ?w) = already_renamed (fst w) @ [InputPath e vf]"
      by (simp_all add: fragment_commit_same [OF True] fs_actions_def already_renamed_def)
    from Cons.IH [of "Suc k" ?w] w True show ?thesis by simp
  next
    case False
    have w: "snd ?w = fst (os_Rename (InputPath e vf) (NewPath e vf) (snd w))"
      "fs_actions (fst ?w) = fs_actions (fst w) @ [Os_Rename (InputPath e vf) (NewPath e vf)]"
      "already_renamed (fst ?w) = already_renamed (fst w)"
      by (cases "snd (os_Rename (InputPath e vf) (NewPath e vf) (snd w))";
          simp add: fragment_commit_differs [OF False] fs_actions_def already_renamed_def)+
    from Cons.IH [of "Suc k" ?w] w False show ?thesis by simp
  qed
qed

lemma loop_dry:
  "snd (rename_loop e renameInfo k vfs w) = snd w
   \<and> fs_actions (fst (rename_loop e renameInfo k vfs w)) = fs_actions (fst w)
   \<and> already_renamed (fst (rename_loop e renameInfo k vfs w)) = already_renamed (fst w)"
proof (induction vfs arbitrary: k w)
  case Nil
  then show ?case by simp
next
  case (Cons vf vfs)
  let ?w = "rename_fragment e renameInfo k vf w"
  have w: "snd ?w = snd w" "fs_actions (fst ?w) = fs_actions (fst w)"
    "already_renamed (fst ?w) = already_renamed (fst w)"
    by (simp_all add: fragment_dry fs_actions_def already_renamed_def)
  from Cons.IH [of "Suc k" ?w] w show ?case by simp
qed

text \<open>
  Claim C7, as amended. For every list of recordings and fragments, canonical or
  not: with \<^verbatim>\<open>Commit\<close>, \<open>rename\<close> calls \<^verbatim>\<open>os.Rename\<close> exactly for the fragments whose
  old and new path differ, in their order, and logs "Already renamed" exactly for
  the fragments whose old and new path are equal, so that a fragment with equal
  paths is reported and never renamed, whatever the other fragments are; the file
  system changes only by those calls. Without \<^verbatim>\<open>Commit\<close> (the dry run) \<open>rename\<close>
  calls \<^verbatim>\<open>os.Rename\<close> for no fragment and leaves the file system as it was, and it
  logs "Already renamed" for no fragment.
\<close>

theorem rename_per_fragment:
  "fs_actions (fst (rename e True os_Rename vms ([], fs))) =
     map (\<lambda>vf. Os_Rename (InputPath e vf) (NewPath e vf))
         (filter (\<lambda>vf. InputPath e vf \<noteq> NewPath e vf) (concat (map Fragments vms)))
   \<and> already_renamed (fst (rename e True os_Rename vms ([], fs))) =
       map (InputPath e) (filter (\<lambda>vf. InputPath e vf = NewPath e vf) (concat (map Fragments vms)))
   \<and> snd (rename e True os_Rename vms ([], fs)) =
       fold (\<lambda>vf fs. fst (os_Rename (InputPath e vf) (NewPath e vf) fs))
            (filter (\<lambda>vf. InputPath e vf \<noteq> NewPath e vf) (concat (map Fragments vms))) fs
   \<and> fs_actions (fst (rename e False os_Rename vms ([], fs))) = []
   \<and> already_renamed (fst (rename e False os_Rename vms ([], fs))) = []
   \<and> snd (rename e False os_Rename vms ([], fs)) = fs"
proof -
  let ?w = "\<lambda>c. emit (Print_Message c) ([], fs)"
  have w: "snd (?w c) = fs" "fs_actions (fst (?w c)) = []" "already_renamed (fst (?w c)) = []" for c
    by (simp_all add: emit_def fs_actions_def already_renamed_def)
  note c = loop_commit [of e os_Rename 0 "concat (map Fragments vms)" "?w True"]
  note d = loop_dry [of e 0 "concat (map Fragments vms)" "?w False"]
  from c d w show ?thesis by (simp add: rename_def)
qed

lemma renamed_fragment_paths:
  "InputPath (videos_env p) renamed_fragment =
     ''/videos/Recording _-_ Date 2023-06-01 10_00_00 _-_ ID 0042 _-_ Part 01.mp4''"
  "NewPath (videos_env p) renamed_fragment =
     ''/videos/Recording _-_ Date 2023-06-01 10_00_00 _-_ ID 0042 _-_ Part 01.mp4''"
  by (simp_all add: InputPath_def NewPath_def videos_env_def renamed_fragment_def
        scenario_fragment_def)

text \<open>A directory with one fragment that has its new name and one that has not: with
  \<^verbatim>\<open>Commit\<close>, the first is reported and only the second is renamed.\<close>

lemma rename_mixed_directory:
  "rename (videos_env (\<lambda>_. ExecError)) True (\<lambda>old new fs. (fs, None))
     [scenario_whole
        [renamed_fragment,
         scenario_fragment ''GX020042.mp4'' 2
           ''Recording _-_ Date 2023-06-01 10_00_00 _-_ ID 0042 _-_ Part 02.mp4'']] ([], ()) =
     ([Print_Message True,
       Log_Already_Renamed ''/videos/Recording _-_ Date 2023-06-01 10_00_00 _-_ ID 0042 _-_ Part 01.mp4'',
       Print_Newline,
       Print_From_To ''/videos/GX020042.mp4''
                     ''/videos/Recording _-_ Date 2023-06-01 10_00_00 _-_ ID 0042 _-_ Part 02.mp4'',
       Os_Rename ''/videos/GX020042.mp4''
                 ''/videos/Recording _-_ Date 2023-06-01 10_00_00 _-_ ID 0042 _-_ Part 02.mp4''],
      ())"
  by (simp add: rename_def rename_fragment_def renameActionBuilder_def renameInfo_def
        renameCommit_def emit_def Let_def scenario_whole_def renamed_fragment_def
        InputPath_def NewPath_def videos_env_def scenario_fragment_def)

text \<open>
  Claim C7 as stated fails in a dry run: for a fragment whose old and new path are
  equal, \<open>rename\<close> without \<^verbatim>\<open>Commit\<close> prints the From/To lines and does not report
  "Already renamed" (the comparison of the paths is in \<open>renameActionBuilder\<close>, which
  only the committing action goes through).
\<close>

theorem dry_run_does_not_report_already_renamed:
  "rename (videos_env (\<lambda>_. ExecError)) False (\<lambda>old new fs. (fs, None))
     [scenario_whole [renamed_fragment]] ([], ()) =
     ([Print_Message False,
       Print_From_To ''/videos/Recording _-_ Date 2023-06-01 10_00_00 _-_ ID 0042 _-_ Part 01.mp4''
                     ''/videos/Recording _-_ Date 2023-06-01 10_00_00 _-_ ID 0042 _-_ Part 01.mp4''],
      ())
   \<and> InputPath (videos_env (\<lambda>_. ExecError)) renamed_fragment =
       NewPath (videos_env (\<lambda>_. ExecError)) renamed_fragment"
  by (simp add: rename_def rename_fragment_def renameInfo_def emit_def Let_def scenario_whole_def
        renamed_fragment_paths)

section \<open>The order of the Add calls\<close>





















end
